theory Spec2Isabelle
  imports Main "HOL-Library.Word"
begin

section \<open>Data model of metricbeat/mb/module/wrapper.go\<close>

text \<open>
  Go values are modelled as follows. A \<open>time.Time\<close> is the number of nanoseconds since
  the zero instant (January 1, year 1, 00:00:00 UTC), so \<open>IsZero\<close> is comparison with 0.
  A \<open>time.Duration\<close> is a number of nanoseconds. An \<open>error\<close> is its message; the nil
  error is \<open>None\<close>. A pointer to a \<open>stats\<close> struct is an address into a store of such structs.
\<close>

type_synonym time = int
type_synonym duration = int
type_synonym error = string
type_synonym addr = nat

definition IsZero :: "time \<Rightarrow> bool" where
  "IsZero t \<longleftrightarrow> t = 0"

text \<open>
  Modelled from the spec: \<open>monitoring.Int\<close>, the type of the three counters (package
  monitoring is not part of this source file). The spec's data model calls \<open>success\<close>,
  \<open>failures\<close> and \<open>events\<close> monotonically increasing counters, created zero-valued; each
  is an integer here and \<open>Add(1)\<close> adds 1.
\<close>

type_synonym counter = int

text \<open>\<open>type stats struct\<close>. The field \<open>ref\<close> is a \<open>uint32\<close>, so it wraps around.\<close>

record stats =
  key :: string
  ref :: "32 word"
  success :: counter
  failures :: counter
  events :: counter

text \<open>\<open>status.Status\<close>: the three values this file passes to \<open>UpdateStatus\<close>.\<close>

datatype status = Starting | Running | Degraded

text \<open>
  The calls the workers make to their collaborators, in the order they are made:
  \<open>UpdateStatus\<close> on the module, \<open>Fetch\<close> (with the number of the fetch cycle), \<open>Run\<close> and
  \<open>Close\<close> on the MetricSet, \<open>Add\<close> and \<open>Remove\<close> on the registry of the "dataset" namespace,
  and \<open>logp.Err\<close> for a MetricSet without an event producing interface.
\<close>

datatype call =
    UpdateStatus status string
  | CallFetch nat
  | CallRun
  | CallClose
  | RegistryAdd string
  | RegistryRemove string
  | LogErr

text \<open>
  The state the functions of the file share: the package variable \<open>fetches\<close> (a map from the
  stats key to a pointer), the store the pointers point into (\<open>next_addr\<close> is the next
  address \<open>&stats{...}\<close> allocates), the keys registered with \<open>monitoring.Default\<close>, whether
  the \<open>done\<close> channel has been closed, the events sent on the \<open>out\<close> channel so far (oldest
  first) and the calls to collaborators so far.
\<close>

record 'b world =
  fetches :: "string \<rightharpoonup> addr"
  heap :: "addr \<Rightarrow> stats"
  next_addr :: addr
  default_registry :: "string set"
  done_closed :: bool
  out :: "'b list"
  calls :: "call list"

definition zero_stats :: stats where
  "zero_stats = \<lparr>key = [], ref = 0, success = 0, failures = 0, events = 0\<rparr>"

text \<open>The state of a process before any Wrapper is created.\<close>

definition init_world :: "'b world" where
  "init_world = \<lparr>fetches = Map.empty, heap = (\<lambda>_. zero_stats), next_addr = 0,
     default_registry = {}, done_closed = False, out = [], calls = []\<rparr>"

section \<open>The stats registry\<close>

text \<open>\<open>fmt.Sprintf("metricbeat.%s.%s", module, name)\<close>\<close>

definition stats_key :: "string \<Rightarrow> string \<Rightarrow> string" where
  "stats_key module_name name = ''metricbeat.'' @ module_name @ ''.'' @ name"

text \<open>\<open>func getMetricSetStats(module, name string) *stats\<close>\<close>

definition getMetricSetStats :: "string \<Rightarrow> string \<Rightarrow> 'b world \<Rightarrow> addr \<times> 'b world" where
  "getMetricSetStats module_name name w =
     (let k = stats_key module_name name in
      case fetches w k of
        Some s \<Rightarrow> (s, w\<lparr>heap := (heap w)(s := (heap w s)\<lparr>ref := ref (heap w s) + 1\<rparr>)\<rparr>)
      | None \<Rightarrow>
          (let s = next_addr w in
           (s, w\<lparr>default_registry := insert k (default_registry w),
                 heap := (heap w)(s := \<lparr>key = k, ref = 1, success = 0, failures = 0, events = 0\<rparr>),
                 next_addr := Suc s,
                 fetches := (fetches w)(k \<mapsto> s)\<rparr>)))"

text \<open>\<open>func releaseStats(s *stats)\<close>\<close>

definition releaseStats :: "addr \<Rightarrow> 'b world \<Rightarrow> 'b world" where
  "releaseStats s w =
     (let w1 = w\<lparr>heap := (heap w)(s := (heap w s)\<lparr>ref := ref (heap w s) - 1\<rparr>)\<rparr> in
      if 0 < ref (heap w1 s) then w1
      else w1\<lparr>fetches := (fetches w1)(key (heap w1 s) := None),
              default_registry := default_registry w1 - {key (heap w1 s)}\<rparr>)"

text \<open>
  Sequences of calls on the registry. The clients' side is kept beside the state: \<open>held\<close>
  lists, for every acquisition not yet released, the key asked for and the handle returned.
\<close>

datatype op = Acquire string string | Release addr

type_synonym held = "(string \<times> addr) list"

fun unreleased :: "held \<Rightarrow> string \<Rightarrow> nat" where
  "unreleased [] k = 0"
| "unreleased ((k', s) # h) k = (if k' = k then Suc (unreleased h k) else unreleased h k)"

fun drop_handle :: "addr \<Rightarrow> held \<Rightarrow> held" where
  "drop_handle s [] = []"
| "drop_handle s ((k, s') # h) = (if s' = s then h else (k, s') # drop_handle s h)"

fun run_op :: "op \<Rightarrow> 'b world \<times> held \<Rightarrow> 'b world \<times> held" where
  "run_op (Acquire m n) (w, h) =
     (case getMetricSetStats m n w of (s, w') \<Rightarrow> (w', (stats_key m n, s) # h))"
| "run_op (Release s) (w, h) = (releaseStats s w, drop_handle s h)"

fun run_ops :: "op list \<Rightarrow> 'b world \<times> held \<Rightarrow> 'b world \<times> held" where
  "run_ops [] c = c"
| "run_ops (x # xs) c = run_ops xs (run_op x c)"

text \<open>
  A sequence is admissible when every release gives back a handle of an acquisition not yet
  released, and no acquisition is made of a key that already has \<open>2^32 - 1\<close> acquisitions
  outstanding (the most a \<open>uint32\<close> counts).
\<close>

fun admissible :: "op list \<Rightarrow> 'b world \<times> held \<Rightarrow> bool" where
  "admissible [] c = True"
| "admissible (Acquire m n # xs) (w, h) =
     (unreleased h (stats_key m n) < 2 ^ 32 - 1 \<and> admissible xs (run_op (Acquire m n) (w, h)))"
| "admissible (Release s # xs) (w, h) =
     (s \<in> snd ` set h \<and> admissible xs (run_op (Release s) (w, h)))"

text \<open>
  The invariant of the registry and its clients: every handle held is the entry registered
  under its key, and a registered entry carries its own key, was allocated earlier, and
  counts in \<open>ref\<close> the acquisitions of its key that are outstanding, of which there is
  at least one.
\<close>

definition registry_inv :: "'b world \<times> held \<Rightarrow> bool" where
  "registry_inv c \<longleftrightarrow>
     (case c of (w, h) \<Rightarrow>
       (\<forall>(k, s) \<in> set h. fetches w k = Some s) \<and>
       (\<forall>k s. fetches w k = Some s \<longrightarrow>
          key (heap w s) = k \<and> s < next_addr w \<and>
          unat (ref (heap w s)) = unreleased h k \<and> 0 < unreleased h k))"

text \<open>The state after \<open>n\<close> acquisitions of one key \<open>k\<close> in a fresh process.\<close>

definition acquired_world :: "string \<Rightarrow> nat \<Rightarrow> unit world" where
  "acquired_world k n = \<lparr>fetches = [k \<mapsto> 0],
     heap = (\<lambda>_. zero_stats)(0 := \<lparr>key = k, ref = of_nat n, success = 0, failures = 0, events = 0\<rparr>),
     next_addr = Suc 0, default_registry = {k}, done_closed = False, out = [], calls = []\<rparr>"

section \<open>Events, modules and MetricSets\<close>

text \<open>
  Modelled from the spec: \<open>mb.Event\<close> (package mb is not part of this source file). The
  spec's data model gives an event its payload fields (opaque to this file; \<open>None\<close> is the nil
  map), a timestamp, the elapsed duration of the fetch, a period, a host, a namespace and an
  optional error; these are the fields \<open>reporterV2.Event\<close> reads and writes.
\<close>

record 'f mb_event =
  MetricSetFields :: "'f option"
  Timestamp :: time
  Took :: duration
  Period :: duration
  Host :: string
  Namespace :: string
  Error :: "error option"

text \<open>\<open>mb.Event{Error: err}\<close>: every other field has its zero value.\<close>

definition error_event :: "error option \<Rightarrow> 'f mb_event" where
  "error_event err = \<lparr>MetricSetFields = None, Timestamp = 0, Took = 0, Period = 0,
     Host = [], Namespace = [], Error = err\<rparr>"

text \<open>\<open>mb.EventModifier\<close> changes an event in place, given the module and MetricSet names.\<close>

type_synonym 'f EventModifier = "string \<Rightarrow> string \<Rightarrow> 'f mb_event \<Rightarrow> 'f mb_event"

text \<open>
  The two functions of package mb this file calls are parameters of the model:
  \<open>event.BeatEvent(module, metricSet, modifiers...)\<close>, which makes the \<open>beat.Event\<close> (of
  type \<open>'b\<close>) that is sent, and \<open>mb.TransformMapStrToEvent(module, m, err)\<close>.
\<close>

record ('f, 'b) mb =
  BeatEvent :: "'f mb_event \<Rightarrow> string \<Rightarrow> string \<Rightarrow> 'f EventModifier list \<Rightarrow> 'b"
  TransformMapStrToEvent :: "string \<Rightarrow> 'f option \<Rightarrow> error option \<Rightarrow> 'f mb_event"

text \<open>
  A \<open>select\<close> between a receive from \<open>done\<close> (written first in all three selects of the file)
  and one other communication. What the goroutine finds when the select is resolved is
  given by the environment: whether \<open>done\<close> has been closed by then (\<open>closes\<close>, if it was not
  closed before), whether the other communication can proceed (\<open>other_ready\<close>), and the
  choice the runtime makes when both can (\<open>coin\<close>; Go chooses one of them at random). When
  neither can proceed the select blocks.
\<close>

record sched =
  closes :: bool
  other_ready :: bool
  coin :: bool

datatype selected = Blocked | TookDone | TookOther

definition observe :: "sched \<Rightarrow> 'b world \<Rightarrow> 'b world" where
  "observe s w = w\<lparr>done_closed := done_closed w \<or> closes s\<rparr>"

definition select_done :: "sched \<Rightarrow> 'b world \<Rightarrow> selected" where
  "select_done s w =
     (if done_closed (observe s w) \<and> other_ready s then (if coin s then TookDone else TookOther)
      else if done_closed (observe s w) then TookDone
      else if other_ready s then TookOther
      else Blocked)"

text \<open>
  The environment of one call of the reporter: the clock read by \<open>time.Since\<close>, the clock
  read by \<open>time.Now\<close>, and the resolution of the select in \<open>writeEvent\<close>.
\<close>

record call_env =
  since_now :: time
  stamp_now :: time
  sel :: sched

text \<open>
  What the code of a MetricSet does during one call of its \<open>Run\<close> or \<open>Fetch\<close>: the calls it
  makes on the reporter it was given, each with its environment, and how the call ends. It
  returns (with a result), panics, or never returns.
\<close>

datatype 'f v1_call =
    V1_Event "'f option"
  | V1_Error "error option"
  | V1_ErrorWith "error option" "'f option"

datatype 'f v2_call =
    V2_Event "'f mb_event"
  | V2_Error "error option"

datatype 'r ending = Returns 'r | Panics | Hangs

type_synonym ('c, 'r) behaviour = "('c \<times> call_env) list \<times> 'r ending"

text \<open>
  The interfaces of package mb the type switches test. The three \<open>Run\<close> methods differ in
  their signature only, and so do the four \<open>Fetch\<close> methods, so a MetricSet has at most one
  of each. A \<open>Fetch\<close> method is called once per cycle; its behaviour may depend on the
  number of the cycle.
\<close>

datatype 'f run_method =
    PushMetricSet "('f v1_call, unit) behaviour"
  | PushMetricSetV2 "('f v2_call, unit) behaviour"
  | PushMetricSetV2WithContext "('f v2_call, unit) behaviour"

datatype 'f fetch_method =
    ReportingMetricSet "nat \<Rightarrow> ('f v1_call, unit) behaviour"
  | ReportingMetricSetV2 "nat \<Rightarrow> ('f v2_call, unit) behaviour"
  | ReportingMetricSetV2Error "nat \<Rightarrow> ('f v2_call, error option) behaviour"
  | ReportingMetricSetV2WithContext "nat \<Rightarrow> ('f v2_call, error option) behaviour"

record 'f metricset =
  metricset_Name :: string
  metricset_ID :: string
  SanitizedURI :: string
  Registration_Namespace :: string
  run_method :: "'f run_method option"
  fetch_method :: "'f fetch_method option"
  closer :: bool

text \<open>\<open>type Wrapper struct\<close>, with the name and the configured period of its \<open>mb.Module\<close>.\<close>

record 'f Wrapper =
  module_Name :: string
  Config_Period :: duration
  maxStartDelay :: duration
  eventModifiers :: "'f EventModifier list"

text \<open>\<open>type metricSetWrapper struct\<close>; \<open>msw_stats\<close> is the pointer \<open>stats\<close>.\<close>

record 'f metricSetWrapper =
  MetricSet :: "'f metricset"
  module :: "'f Wrapper"
  msw_stats :: addr
  periodic :: bool

text \<open>
  \<open>type eventReporter struct\<close>. Its fields \<open>msw\<close>, \<open>done\<close> and \<open>out\<close> are references; the
  functions below take the metricSetWrapper they point to as an argument and find the two
  channels in the state.
\<close>

record eventReporter =
  start :: time

section \<open>The cancellation context\<close>

text \<open>
  \<open>type channelContext struct\<close>, over any type \<open>'c\<close> of channels. \<open>Err\<close> is given the
  state of the channels: which of them have been closed.
\<close>

record 'c channelContext =
  ctx_done :: 'c

definition Canceled :: error where
  "Canceled = ''context canceled''"

definition Deadline :: "'c channelContext \<Rightarrow> time \<times> bool" where
  "Deadline r = (0, False)"

definition Done :: "'c channelContext \<Rightarrow> 'c" where
  "Done r = ctx_done r"

definition Err :: "('c \<Rightarrow> bool) \<Rightarrow> 'c channelContext \<Rightarrow> error option" where
  "Err closed r = (if closed (ctx_done r) then Some Canceled else None)"

section \<open>The event reporter\<close>

text \<open>
  \<open>time.Since(t)\<close> is \<open>time.Now().Sub(t)\<close>; \<open>Sub\<close> returns the largest or smallest
  \<open>Duration\<close> (an \<open>int64\<close>) when the difference does not fit.
\<close>

definition Since :: "time \<Rightarrow> time \<Rightarrow> duration" where
  "Since now t =
     (if now - t > 2 ^ 63 - 1 then 2 ^ 63 - 1
      else if now - t < - (2 ^ 63) then - (2 ^ 63)
      else now - t)"

text \<open>\<open>func (r *eventReporter) StartFetchTimer()\<close>, given the clock it reads.\<close>

definition StartFetchTimer :: "time \<Rightarrow> eventReporter \<Rightarrow> eventReporter" where
  "StartFetchTimer now r = r\<lparr>start := now\<rparr>"

text \<open>\<open>func writeEvent(done, out, event) bool\<close>; \<open>None\<close> when the select blocks.\<close>

definition writeEvent :: "'b \<Rightarrow> sched \<Rightarrow> 'b world \<Rightarrow> bool option \<times> 'b world" where
  "writeEvent event s w =
     (case select_done s w of
        TookDone \<Rightarrow> (Some False, observe s w)
      | TookOther \<Rightarrow> (Some True, (observe s w)\<lparr>out := out w @ [event]\<rparr>)
      | Blocked \<Rightarrow> (None, observe s w))"

text \<open>
  The assignments \<open>reporterV2.Event\<close> makes to the event before it is sent (lines 366 to
  383 and 391 to 393 of the file), in the order of the source. They read and write the
  event only, so the update of the counters that stands between them is left to \<open>Event\<close>.
\<close>

definition prepare ::
  "'f metricSetWrapper \<Rightarrow> eventReporter \<Rightarrow> 'f mb_event \<Rightarrow> call_env \<Rightarrow> 'f mb_event" where
  "prepare msw r event env =
     (let e1 = (if Took event = 0 \<and> \<not> IsZero (start r)
                then event\<lparr>Took := Since (since_now env) (start r)\<rparr> else event);
          e2 = (if periodic msw then e1\<lparr>Period := Config_Period (module msw)\<rparr> else e1);
          e3 = (if IsZero (Timestamp e2)
                then (if \<not> IsZero (start r) then e2\<lparr>Timestamp := start r\<rparr>
                      else e2\<lparr>Timestamp := stamp_now env\<rparr>)
                else e2);
          e4 = (if Host e3 = [] then e3\<lparr>Host := SanitizedURI (MetricSet msw)\<rparr> else e3);
          e5 = (if Namespace e4 = []
                then e4\<lparr>Namespace := Registration_Namespace (MetricSet msw)\<rparr> else e4)
      in e5)"

text \<open>\<open>monitoring.Int.Add(1)\<close> on the three counters of the stats a pointer points to.\<close>

definition add_success :: "addr \<Rightarrow> 'b world \<Rightarrow> 'b world" where
  "add_success s w = w\<lparr>heap := (heap w)(s := (heap w s)\<lparr>success := success (heap w s) + 1\<rparr>)\<rparr>"

definition add_failures :: "addr \<Rightarrow> 'b world \<Rightarrow> 'b world" where
  "add_failures s w = w\<lparr>heap := (heap w)(s := (heap w s)\<lparr>failures := failures (heap w s) + 1\<rparr>)\<rparr>"

definition add_events :: "addr \<Rightarrow> 'b world \<Rightarrow> 'b world" where
  "add_events s w = w\<lparr>heap := (heap w)(s := (heap w s)\<lparr>events := events (heap w s) + 1\<rparr>)\<rparr>"

text \<open>
  \<open>func (r reporterV2) Event(event mb.Event) bool\<close>. The result is \<open>None\<close> when the call
  does not return because the select in \<open>writeEvent\<close> blocks.
\<close>

definition Event ::
  "('f, 'b) mb \<Rightarrow> 'f metricSetWrapper \<Rightarrow> eventReporter \<Rightarrow> 'f mb_event \<Rightarrow> call_env \<Rightarrow>
   'b world \<Rightarrow> bool option \<times> 'b world" where
  "Event mb msw r event env w =
     (let e = prepare msw r event env;
          w1 = (if Error e = None then add_success (msw_stats msw) w
                else add_failures (msw_stats msw) w);
          beatEvent = BeatEvent mb e (module_Name (module msw)) (metricset_Name (MetricSet msw))
                        (eventModifiers (module msw))
      in case writeEvent beatEvent (sel env) w1 of
           (Some True, w2) \<Rightarrow> (Some True, add_events (msw_stats msw) w2)
         | (res, w2) \<Rightarrow> (res, w2))"

text \<open>\<open>func (r reporterV2) Error(err error) bool\<close>\<close>

definition Error_V2 ::
  "('f, 'b) mb \<Rightarrow> 'f metricSetWrapper \<Rightarrow> eventReporter \<Rightarrow> error option \<Rightarrow> call_env \<Rightarrow>
   'b world \<Rightarrow> bool option \<times> 'b world" where
  "Error_V2 mb msw r err env w = Event mb msw r (error_event err) env w"

text \<open>
  \<open>func (r reporterV1) ErrorWith(err error, meta mapstr.M) bool\<close>; the reporterV1 is
  \<open>reporterV1{v2: r.V2(), module: r.msw.module.Name()}\<close>.
\<close>

definition ErrorWith ::
  "('f, 'b) mb \<Rightarrow> 'f metricSetWrapper \<Rightarrow> eventReporter \<Rightarrow> error option \<Rightarrow> 'f option \<Rightarrow>
   call_env \<Rightarrow> 'b world \<Rightarrow> bool option \<times> 'b world" where
  "ErrorWith mb msw r err meta env w =
     (if err = None \<and> meta = None then (Some True, w)
      else Event mb msw r (TransformMapStrToEvent mb (module_Name (module msw)) meta err) env w)"

text \<open>
  The reporters as the code of a MetricSet sees them: \<open>reporterV1\<close> with \<open>Event\<close>, \<open>Error\<close>
  and \<open>ErrorWith\<close>, and \<open>reporterV2\<close> with \<open>Event\<close> and \<open>Error\<close>.
\<close>

fun reporterV1 ::
  "('f, 'b) mb \<Rightarrow> 'f metricSetWrapper \<Rightarrow> eventReporter \<Rightarrow> 'f v1_call \<Rightarrow> call_env \<Rightarrow>
   'b world \<Rightarrow> bool option \<times> 'b world" where
  "reporterV1 mb msw r (V1_Event event) env w = ErrorWith mb msw r None event env w"
| "reporterV1 mb msw r (V1_Error err) env w = ErrorWith mb msw r err None env w"
| "reporterV1 mb msw r (V1_ErrorWith err meta) env w = ErrorWith mb msw r err meta env w"

fun reporterV2 ::
  "('f, 'b) mb \<Rightarrow> 'f metricSetWrapper \<Rightarrow> eventReporter \<Rightarrow> 'f v2_call \<Rightarrow> call_env \<Rightarrow>
   'b world \<Rightarrow> bool option \<times> 'b world" where
  "reporterV2 mb msw r (V2_Event event) env w = Event mb msw r event env w"
| "reporterV2 mb msw r (V2_Error err) env w = Error_V2 mb msw r err env w"

text \<open>
  A sequence of calls of \<open>Event\<close> on the state, by any reporters (those of several workers
  may share one stats entry). Each call leaves the state it reached, whether it returned
  or blocks in \<open>writeEvent\<close>.
\<close>

fun reports ::
  "('f, 'b) mb \<Rightarrow> ('f metricSetWrapper \<times> eventReporter \<times> 'f mb_event \<times> call_env) list \<Rightarrow>
   'b world \<Rightarrow> 'b world" where
  "reports mb [] w = w"
| "reports mb ((msw, r, event, env) # cs) w = reports mb cs (snd (Event mb msw r event env w))"

text \<open>No stats entry has published more events than it has counted successes and failures.\<close>

definition counters_ok :: "'b world \<Rightarrow> bool" where
  "counters_ok w \<longleftrightarrow> (\<forall>s. events (heap w s) \<le> success (heap w s) + failures (heap w s))"

section \<open>The workers\<close>

text \<open>
  Calling the code of a MetricSet with a reporter: its calls on the reporter are made in
  order; the call of the MetricSet does not return when one of them blocks.
\<close>

fun report_all ::
  "('c \<Rightarrow> call_env \<Rightarrow> 'b world \<Rightarrow> bool option \<times> 'b world) \<Rightarrow> ('c \<times> call_env) list \<Rightarrow>
   'b world \<Rightarrow> bool \<times> 'b world" where
  "report_all reporter [] w = (True, w)"
| "report_all reporter ((c, env) # cs) w =
     (case reporter c env w of
        (None, w') \<Rightarrow> (False, w')
      | (Some b, w') \<Rightarrow> report_all reporter cs w')"

definition invoke ::
  "('c \<Rightarrow> call_env \<Rightarrow> 'b world \<Rightarrow> bool option \<times> 'b world) \<Rightarrow> ('c, 'r) behaviour \<Rightarrow>
   'b world \<Rightarrow> 'r ending \<times> 'b world" where
  "invoke reporter beh w =
     (case report_all reporter (fst beh) w of
        (False, w') \<Rightarrow> (Hangs, w')
      | (True, w') \<Rightarrow> (snd beh, w'))"

definition log_call :: "call \<Rightarrow> 'b world \<Rightarrow> 'b world" where
  "log_call c w = w\<lparr>calls := calls w @ [c]\<rparr>"

text \<open>The messages \<open>fmt.Sprintf\<close> builds for \<open>UpdateStatus\<close>.\<close>

definition starting_message :: "'f metricSetWrapper \<Rightarrow> string" where
  "starting_message msw =
     module_Name (module msw) @ ''/'' @ metricset_Name (MetricSet msw) @ '' is starting''"

definition degraded_message :: "'f metricSetWrapper \<Rightarrow> error \<Rightarrow> string" where
  "degraded_message msw err =
     ''Error fetching data for metricset '' @ module_Name (module msw) @ ''.'' @
     metricset_Name (MetricSet msw) @ '': '' @ err"

text \<open>
  The environment of one fetch cycle: the clock \<open>StartFetchTimer\<close> reads, and the
  environment of the call \<open>reporter.V2().Error(err)\<close> that \<open>fetch\<close> makes itself.
\<close>

record fetch_env =
  fetch_clock :: time
  error_env :: call_env

text \<open>
  What \<open>fetch\<close> does once an error-returning \<open>Fetch\<close> has ended (the bodies of the cases
  \<open>mb.ReportingMetricSetV2Error\<close> and \<open>mb.ReportingMetricSetV2WithContext\<close> are the same).
\<close>

definition after_fetch ::
  "('f, 'b) mb \<Rightarrow> 'f metricSetWrapper \<Rightarrow> eventReporter \<Rightarrow> fetch_env \<Rightarrow>
   (error option) ending \<times> 'b world \<Rightarrow> unit ending \<times> 'b world" where
  "after_fetch mb msw r fe res =
     (case res of
        (Returns (Some err), w) \<Rightarrow>
          (case Error_V2 mb msw r (Some err) (error_env fe) w of
             (None, w') \<Rightarrow> (Hangs, w')
           | (Some b, w') \<Rightarrow>
               (Returns (), log_call (UpdateStatus Degraded (degraded_message msw err)) w'))
      | (Returns None, w) \<Rightarrow> (Returns (), log_call (UpdateStatus Running []) w)
      | (Panics, w) \<Rightarrow> (Panics, w)
      | (Hangs, w) \<Rightarrow> (Hangs, w))"

text \<open>
  \<open>func (msw *metricSetWrapper) fetch(ctx, reporter)\<close>, for the fetch cycle number \<open>i\<close>. It
  returns how the call ended, the reporter (whose \<open>start\<close> it sets) and the state.
\<close>

definition fetch ::
  "('f, 'b) mb \<Rightarrow> 'f metricSetWrapper \<Rightarrow> eventReporter \<Rightarrow> nat \<Rightarrow> fetch_env \<Rightarrow> 'b world \<Rightarrow>
   unit ending \<times> eventReporter \<times> 'b world" where
  "fetch mb msw r i fe w =
     (case fetch_method (MetricSet msw) of
        Some (ReportingMetricSet fetcher) \<Rightarrow>
          (let r' = StartFetchTimer (fetch_clock fe) r;
               (e, w') = invoke (reporterV1 mb msw r') (fetcher i) (log_call (CallFetch i) w)
           in (e, r', w'))
      | Some (ReportingMetricSetV2 fetcher) \<Rightarrow>
          (let r' = StartFetchTimer (fetch_clock fe) r;
               (e, w') = invoke (reporterV2 mb msw r') (fetcher i) (log_call (CallFetch i) w)
           in (e, r', w'))
      | Some (ReportingMetricSetV2Error fetcher) \<Rightarrow>
          (let r' = StartFetchTimer (fetch_clock fe) r;
               (e, w') = after_fetch mb msw r' fe
                  (invoke (reporterV2 mb msw r') (fetcher i) (log_call (CallFetch i) w))
           in (e, r', w'))
      | Some (ReportingMetricSetV2WithContext fetcher) \<Rightarrow>
          (let r' = StartFetchTimer (fetch_clock fe) r;
               (e, w') = after_fetch mb msw r' fe
                  (invoke (reporterV2 mb msw r') (fetcher i) (log_call (CallFetch i) w))
           in (e, r', w'))
      | None \<Rightarrow> (Panics, r, w))"

text \<open>
  The \<open>for\<close> loop of \<open>startPeriodicFetching\<close>. The environment gives, for each time round
  the loop, the resolution of the select between \<open>done\<close> and the ticker and the environment
  of the fetch that follows a tick. The loop may run for ever: it is followed as far as
  the environment is given, and \<open>Hangs\<close> is the result when it has not returned by then.
\<close>

fun fetch_loop ::
  "('f, 'b) mb \<Rightarrow> 'f metricSetWrapper \<Rightarrow> eventReporter \<Rightarrow> nat \<Rightarrow> (sched \<times> fetch_env) list \<Rightarrow>
   'b world \<Rightarrow> unit ending \<times> 'b world" where
  "fetch_loop mb msw r i [] w = (Hangs, w)"
| "fetch_loop mb msw r i ((s, fe) # ticks) w =
     (case select_done s w of
        TookDone \<Rightarrow> (Returns (), observe s w)
      | Blocked \<Rightarrow> (Hangs, observe s w)
      | TookOther \<Rightarrow>
          (case fetch mb msw r i fe (observe s w) of
             (Returns u, r', w') \<Rightarrow> fetch_loop mb msw r' (Suc i) ticks w'
           | (Panics, r', w') \<Rightarrow> (Panics, w')
           | (Hangs, r', w') \<Rightarrow> (Hangs, w')))"

text \<open>
  \<open>func (msw *metricSetWrapper) startPeriodicFetching(ctx, reporter)\<close>. \<open>time.NewTicker\<close>
  panics when the period is not positive.
\<close>

definition startPeriodicFetching ::
  "('f, 'b) mb \<Rightarrow> 'f metricSetWrapper \<Rightarrow> eventReporter \<Rightarrow> fetch_env \<Rightarrow>
   (sched \<times> fetch_env) list \<Rightarrow> 'b world \<Rightarrow> unit ending \<times> 'f metricSetWrapper \<times> 'b world" where
  "startPeriodicFetching mb msw r first ticks w =
     (let msw' = msw\<lparr>periodic := True\<rparr> in
      case fetch mb msw' r 0 first w of
        (Returns u, r', w') \<Rightarrow>
          (if Config_Period (module msw') \<le> 0 then (Panics, msw', w')
           else (case fetch_loop mb msw' r' 1 ticks w' of (e, w'') \<Rightarrow> (e, msw', w'')))
      | (Panics, r', w') \<Rightarrow> (Panics, msw', w')
      | (Hangs, r', w') \<Rightarrow> (Hangs, msw', w'))"

text \<open>
  The environment of one worker: the number the random source gives \<open>rand.Int63n\<close>, the
  resolution of the select between \<open>done\<close> and the timer of the start delay, the
  environment of the first fetch and that of the loop.
\<close>

record plan =
  random_source :: int
  delay_sel :: sched
  first_fetch :: fetch_env
  ticks :: "(sched \<times> fetch_env) list"

text \<open>\<open>rand.Int63n(n)\<close> for \<open>n > 0\<close>: a number in \<open>[0, n)\<close>.\<close>

definition Int63n :: "int \<Rightarrow> int \<Rightarrow> int" where
  "Int63n source n = source mod n"

text \<open>
  The type switch of \<open>run\<close>, entered with a new \<open>eventReporter\<close> (its \<open>start\<close> is the zero
  time).
\<close>

definition dispatch ::
  "('f, 'b) mb \<Rightarrow> 'f metricSetWrapper \<Rightarrow> plan \<Rightarrow> 'b world \<Rightarrow>
   unit ending \<times> 'f metricSetWrapper \<times> 'b world" where
  "dispatch mb msw p w =
     (let reporter = \<lparr>start = 0\<rparr> in
      case run_method (MetricSet msw) of
        Some (PushMetricSet ms) \<Rightarrow>
          (case invoke (reporterV1 mb msw reporter) ms (log_call CallRun w) of
             (e, w') \<Rightarrow> (e, msw, w'))
      | Some (PushMetricSetV2 ms) \<Rightarrow>
          (case invoke (reporterV2 mb msw reporter) ms (log_call CallRun w) of
             (e, w') \<Rightarrow> (e, msw, w'))
      | Some (PushMetricSetV2WithContext ms) \<Rightarrow>
          (case invoke (reporterV2 mb msw reporter) ms (log_call CallRun w) of
             (e, w') \<Rightarrow> (e, msw, w'))
      | None \<Rightarrow>
          (case fetch_method (MetricSet msw) of
             Some ms \<Rightarrow> startPeriodicFetching mb msw reporter (first_fetch p) (ticks p) w
           | None \<Rightarrow> (Returns (), msw, log_call LogErr w)))"

text \<open>
  \<open>func (msw *metricSetWrapper) run(done, out)\<close>. The deferred \<open>logp.Recover\<close> turns a
  panic into a return. The result says whether \<open>run\<close> returns (\<open>False\<close>: it has not returned
  as far as the environment is given).
\<close>

definition run ::
  "('f, 'b) mb \<Rightarrow> 'f metricSetWrapper \<Rightarrow> plan \<Rightarrow> 'b world \<Rightarrow>
   bool \<times> 'f metricSetWrapper \<times> 'b world" where
  "run mb msw p w =
     (let recovered = (\<lambda>res. case res of (e, msw', w') \<Rightarrow> (e \<noteq> Hangs, msw', w')) in
      if maxStartDelay (module msw) > 0 then
        (let delay = Int63n (random_source p) (maxStartDelay (module msw)) in
         case select_done (delay_sel p) w of
           TookDone \<Rightarrow> (True, msw, observe (delay_sel p) w)
         | Blocked \<Rightarrow> (False, msw, observe (delay_sel p) w)
         | TookOther \<Rightarrow> recovered (dispatch mb msw p (observe (delay_sel p) w)))
      else recovered (dispatch mb msw p w))"

text \<open>\<open>func (msw *metricSetWrapper) close() error\<close>\<close>

definition close_metricset :: "'f metricSetWrapper \<Rightarrow> 'b world \<Rightarrow> 'b world" where
  "close_metricset msw w = (if closer (MetricSet msw) then log_call CallClose w else w)"

text \<open>
  The goroutine \<open>Start\<close> starts for one metricSetWrapper: it registers the metrics, reports
  the status \<open>Starting\<close> and calls \<open>run\<close>; when \<open>run\<close> returns the deferred calls are made,
  last deferred first.
\<close>

definition worker ::
  "('f, 'b) mb \<Rightarrow> 'f metricSetWrapper \<Rightarrow> plan \<Rightarrow> 'b world \<Rightarrow>
   bool \<times> 'f metricSetWrapper \<times> 'b world" where
  "worker mb msw p w =
     (let metricsPath = metricset_ID (MetricSet msw);
          w1 = log_call (RegistryAdd metricsPath) w;
          w2 = log_call (UpdateStatus Starting (starting_message msw)) w1
      in case run mb msw p w2 of
           (True, msw', w3) \<Rightarrow>
             (True, msw',
              log_call (RegistryRemove metricsPath)
                (releaseStats (msw_stats msw') (close_metricset msw' w3)))
         | (False, msw', w3) \<Rightarrow> (False, msw', w3))"

text \<open>The fetches among the calls made.\<close>

fun is_fetch :: "call \<Rightarrow> bool" where
  "is_fetch (CallFetch i) = True"
| "is_fetch c = False"

text \<open>
  \<open>func createWrapper(module, metricSets, options...)\<close>: the options are applied to the
  new Wrapper, then one metricSetWrapper is made per MetricSet, with the stats acquired
  for it; its \<open>periodic\<close> field is not set, so it has the zero value \<open>false\<close>.
\<close>

fun wrap_metricsets ::
  "'f Wrapper \<Rightarrow> 'f metricset list \<Rightarrow> 'b world \<Rightarrow> 'f metricSetWrapper list \<times> 'b world" where
  "wrap_metricsets wrapper [] w = ([], w)"
| "wrap_metricsets wrapper (metricSet # metricSets) w =
     (case getMetricSetStats (module_Name wrapper) (metricset_Name metricSet) w of
        (s, w1) \<Rightarrow>
          (case wrap_metricsets wrapper metricSets w1 of
             (msws, w2) \<Rightarrow>
               (\<lparr>MetricSet = metricSet, module = wrapper, msw_stats = s, periodic = False\<rparr>
                  # msws, w2)))"

definition createWrapper ::
  "'f Wrapper \<Rightarrow> 'f metricset list \<Rightarrow> ('f Wrapper \<Rightarrow> 'f Wrapper) list \<Rightarrow> 'b world \<Rightarrow>
   'f metricSetWrapper list \<times> 'b world" where
  "createWrapper module_given metricSets options w =
     wrap_metricsets (fold (\<lambda>applyOption wrapper. applyOption wrapper) options module_given)
       metricSets w"

text \<open>
  The event and the environment with which a call of a MetricSet on its reporter reaches
  \<open>reporterV2.Event\<close>: directly for a call on \<open>reporterV2\<close>; through \<open>ErrorWith\<close> for a call
  on \<open>reporterV1\<close>, which hands over nothing when both the error and the map are nil.
\<close>

fun handed_V2 :: "'f v2_call \<times> call_env \<Rightarrow> 'f mb_event \<times> call_env" where
  "handed_V2 (V2_Event event, env) = (event, env)"
| "handed_V2 (V2_Error err, env) = (error_event err, env)"

fun handed_V1 ::
  "('f, 'b) mb \<Rightarrow> string \<Rightarrow> 'f v1_call \<times> call_env \<Rightarrow> ('f mb_event \<times> call_env) option" where
  "handed_V1 mb name (V1_Event event, env) =
     (if event = None then None else Some (TransformMapStrToEvent mb name event None, env))"
| "handed_V1 mb name (V1_Error err, env) =
     (if err = None then None else Some (TransformMapStrToEvent mb name None err, env))"
| "handed_V1 mb name (V1_ErrorWith err meta, env) =
     (if err = None \<and> meta = None then None
      else Some (TransformMapStrToEvent mb name meta err, env))"

text \<open>All that the \<open>Run\<close> method of a push MetricSet hands to \<open>reporterV2.Event\<close>.\<close>

fun handed :: "('f, 'b) mb \<Rightarrow> string \<Rightarrow> 'f run_method \<Rightarrow> ('f mb_event \<times> call_env) set" where
  "handed mb name (PushMetricSet ms) = {x. \<exists>c \<in> set (fst ms). handed_V1 mb name c = Some x}"
| "handed mb name (PushMetricSetV2 ms) = handed_V2 ` set (fst ms)"
| "handed mb name (PushMetricSetV2WithContext ms) = handed_V2 ` set (fst ms)"

text \<open>
  \<open>sent mb msw Q w w'\<close>: what has been sent on \<open>out\<close> from \<open>w\<close> to \<open>w'\<close> is, in order, what
  \<open>BeatEvent\<close> makes of a list of events (with the names and modifiers of \<open>msw\<close>), each of
  which satisfies \<open>Q\<close>.
\<close>

definition sent ::
  "('f, 'b) mb \<Rightarrow> 'f metricSetWrapper \<Rightarrow> ('f mb_event \<Rightarrow> bool) \<Rightarrow> 'b world \<Rightarrow> 'b world \<Rightarrow> bool" where
  "sent mb msw Q w w' \<longleftrightarrow>
     (\<exists>es. out w' = out w @
              map (\<lambda>e. BeatEvent mb e (module_Name (module msw)) (metricset_Name (MetricSet msw))
                         (eventModifiers (module msw))) es \<and>
           (\<forall>e \<in> set es. Q e))"

section \<open>Worked examples\<close>

text \<open>
  An instance of the parameters, a module with a period of ten seconds and a MetricSet with
  given methods, two resolutions of a select (the other communication proceeds; \<open>done\<close> is
  closed and the other communication cannot proceed), and an environment of a reporter call.
\<close>

definition example_mb :: "(unit, unit mb_event) mb" where
  "example_mb = \<lparr>BeatEvent = (\<lambda>e m n ms. e),
     TransformMapStrToEvent = (\<lambda>m meta err. \<lparr>MetricSetFields = meta, Timestamp = 0, Took = 0,
        Period = 0, Host = [], Namespace = [], Error = err\<rparr>)\<rparr>"

definition example_module :: "unit Wrapper" where
  "example_module = \<lparr>module_Name = ''system'', Config_Period = 10000000000, maxStartDelay = 0,
     eventModifiers = []\<rparr>"

definition example_msw ::
  "unit run_method option \<Rightarrow> unit fetch_method option \<Rightarrow> unit metricSetWrapper" where
  "example_msw rm fm =
     \<lparr>MetricSet = \<lparr>metricset_Name = ''cpu'', metricset_ID = ''system-cpu'',
         SanitizedURI = ''localhost'', Registration_Namespace = ''system.cpu'',
         run_method = rm, fetch_method = fm, closer = False\<rparr>,
      module = example_module, msw_stats = 0, periodic = False\<rparr>"

definition sending :: sched where
  "sending = \<lparr>closes = False, other_ready = True, coin = False\<rparr>"

definition shutdown :: sched where
  "shutdown = \<lparr>closes = True, other_ready = False, coin = False\<rparr>"

definition example_env :: "sched \<Rightarrow> call_env" where
  "example_env s = \<lparr>since_now = 2000, stamp_now = 3000, sel = s\<rparr>"

text \<open>
  The environment of a fetch cycle and of a worker, a polling MetricSet that reports one
  event per cycle, a push MetricSet that reports one event on which it has set a period of
  five seconds itself, the state after the stats of the MetricSet have been acquired, and a
  worker with a start delay of up to five seconds.
\<close>

definition example_fetch_env :: fetch_env where
  "example_fetch_env = \<lparr>fetch_clock = 1000, error_env = example_env sending\<rparr>"

definition example_plan :: plan where
  "example_plan = \<lparr>random_source = 7, delay_sel = shutdown, first_fetch = example_fetch_env,
     ticks = [(shutdown, example_fetch_env)]\<rparr>"

definition example_polling :: "unit metricSetWrapper" where
  "example_polling = example_msw None
     (Some (ReportingMetricSetV2 (\<lambda>i. ([(V2_Event (error_event None), example_env sending)],
        Returns ()))))"

definition example_push :: "unit metricSetWrapper" where
  "example_push = example_msw
     (Some (PushMetricSetV2 ([(V2_Event ((error_event None)\<lparr>Period := 5000000000\<rparr>),
        example_env sending)], Returns ()))) None"

definition example_world :: "unit mb_event world" where
  "example_world = snd (getMetricSetStats ''system'' ''cpu'' init_world)"

definition example_delayed :: "unit metricSetWrapper" where
  "example_delayed = (example_msw None None)\<lparr>module := example_module\<lparr>maxStartDelay := 5000000000\<rparr>\<rparr>"

section \<open>Unfolding the definitions\<close>

lemmas example_defs = example_mb_def example_module_def example_msw_def sending_def
  shutdown_def example_env_def example_fetch_env_def example_plan_def example_polling_def
  example_world_def

lemmas worker_defs = worker_def run_def dispatch_def startPeriodicFetching_def fetch_def
  after_fetch_def invoke_def Event_def Error_V2_def ErrorWith_def prepare_def writeEvent_def
  select_done_def observe_def log_call_def add_success_def add_failures_def add_events_def
  StartFetchTimer_def IsZero_def Since_def error_event_def close_metricset_def releaseStats_def
  init_world_def zero_stats_def starting_message_def degraded_message_def Int63n_def
  getMetricSetStats_def stats_key_def Let_def

section \<open>The stats registry: reference counting\<close>

lemma unreleased_0: "(\<forall>(k', s) \<in> set h. k' \<noteq> k) \<Longrightarrow> unreleased h k = 0"
  by (induction h) auto

lemma unreleased_pos: "(k, s) \<in> set h \<Longrightarrow> 0 < unreleased h k"
  by (induction h) auto

lemma unreleased_drop_same:
  "(k, s) \<in> set h \<Longrightarrow> \<forall>(k', s') \<in> set h. s' = s \<longrightarrow> k' = k \<Longrightarrow>
   unreleased (drop_handle s h) k = unreleased h k - 1"
proof (induction h)
  case Nil
  then show ?case by simp
next
  case (Cons p h)
  obtain k' s' where p: "p = (k', s')" by (cases p)
  show ?case
  proof (cases "s' = s")
    case True
    with Cons.prems p show ?thesis by auto
  next
    case False
    with Cons.prems p have mem: "(k, s) \<in> set h" by auto
    with Cons have ih: "unreleased (drop_handle s h) k = unreleased h k - 1" by auto
    from unreleased_pos [OF mem] have "0 < unreleased h k" .
    with ih False p show ?thesis by auto
  qed
qed

lemma unreleased_drop_other:
  "\<forall>(k', s') \<in> set h. s' = s \<longrightarrow> k' \<noteq> k \<Longrightarrow>
   unreleased (drop_handle s h) k = unreleased h k"
  by (induction h) auto

lemma set_drop_handle: "x \<in> set (drop_handle s h) \<Longrightarrow> x \<in> set h"
  by (induction h) (auto split: if_splits)

lemma registry_inv_init: "registry_inv (init_world, [])"
  by (simp add: registry_inv_def init_world_def)

lemma unat_ref_succ: "unat (r :: 32 word) < 2 ^ 32 - 1 \<Longrightarrow> unat (r + 1) = Suc (unat r)"
  by (simp add: unat_word_ariths)

lemma unat_ref_pred: "0 < unat (r :: 32 word) \<Longrightarrow> unat (r - 1) = unat r - 1"
  by (rule unat_minus_one) auto

lemma ref_pred_pos: "0 < unat (r :: 32 word) \<Longrightarrow> (0 < r - 1) = (1 < unat r)"
  by (simp add: word_greater_zero_iff unat_eq_zero[symmetric] unat_ref_pred del: unat_eq_zero)
     linarith

lemma registry_inv_acquire:
  assumes inv: "registry_inv (w, h)" and bound: "unreleased h (stats_key m n) < 2 ^ 32 - 1"
  shows "registry_inv (run_op (Acquire m n) (w, h))"
proof (cases "fetches w (stats_key m n)")
  case None
  have fresh: "\<And>k s. fetches w k = Some s \<Longrightarrow> s \<noteq> next_addr w \<and> s < Suc (next_addr w)"
    using inv by (fastforce simp: registry_inv_def)
  have held: "\<And>k s. (k, s) \<in> set h \<Longrightarrow> fetches w k = Some s"
    using inv by (auto simp: registry_inv_def)
  have zero: "unreleased h (stats_key m n) = 0"
    using None held by (intro unreleased_0) auto
  have reg: "\<And>k s. fetches w k = Some s \<Longrightarrow>
      key (heap w s) = k \<and> unat (ref (heap w s)) = unreleased h k \<and> 0 < unreleased h k"
    using inv by (auto simp: registry_inv_def)
  show ?thesis
    unfolding registry_inv_def
    using None zero fresh held reg
    by (auto simp: getMetricSetStats_def Let_def)
next
  case (Some s)
  have held: "\<And>k s. (k, s) \<in> set h \<Longrightarrow> fetches w k = Some s"
    using inv by (auto simp: registry_inv_def)
  have reg: "\<And>k s. fetches w k = Some s \<Longrightarrow>
      key (heap w s) = k \<and> s < next_addr w \<and> unat (ref (heap w s)) = unreleased h k
        \<and> 0 < unreleased h k"
    using inv by (auto simp: registry_inv_def)
  from reg [OF Some] bound have "unat (ref (heap w s)) < 2 ^ 32 - 1" by simp
  then have succ: "unat (ref (heap w s) + 1) = Suc (unreleased h (stats_key m n))"
    using reg [OF Some] by (simp add: unat_ref_succ)
  have other: "s' \<noteq> s" if "fetches w k = Some s'" "k \<noteq> stats_key m n" for k s'
    using reg [OF that(1)] reg [OF Some] that(2) by auto
  show ?thesis
    unfolding registry_inv_def
    using Some succ held reg other
    by (auto simp: getMetricSetStats_def Let_def)
qed

lemma registry_inv_release:
  assumes inv: "registry_inv (w, h)" and mem: "s \<in> snd ` set h"
  shows "registry_inv (run_op (Release s) (w, h))"
proof -
  from mem obtain k where ks: "(k, s) \<in> set h" by auto
  have held: "\<And>k s. (k, s) \<in> set h \<Longrightarrow> fetches w k = Some s"
    using inv by (auto simp: registry_inv_def)
  have reg: "\<And>k s. fetches w k = Some s \<Longrightarrow>
      key (heap w s) = k \<and> s < next_addr w \<and> unat (ref (heap w s)) = unreleased h k
        \<and> 0 < unreleased h k"
    using inv by (auto simp: registry_inv_def)
  have fk: "fetches w k = Some s" using held ks .
  note rk = reg [OF fk]
  have same: "\<forall>(k', s') \<in> set h. s' = s \<longrightarrow> k' = k"
  proof (clarify)
    fix k' assume "(k', s) \<in> set h"
    from reg [OF held [OF this]] rk show "k' = k" by simp
  qed
  have dk: "unreleased (drop_handle s h) k = unreleased h k - 1"
    using ks same by (rule unreleased_drop_same)
  have dother: "\<And>k'. k' \<noteq> k \<Longrightarrow> unreleased (drop_handle s h) k' = unreleased h k'"
    using same by (intro unreleased_drop_other) auto
  have pos: "0 < unat (ref (heap w s))" using rk by simp
  have other: "s' \<noteq> s" if "fetches w k' = Some s'" "k' \<noteq> k" for k' s'
    using reg [OF that(1)] rk that(2) by auto
  define w' where "w' = releaseStats s w"
  have run: "run_op (Release s) (w, h) = (w', drop_handle s h)"
    by (simp add: w'_def)
  have heap': "heap w' = (heap w)(s := (heap w s)\<lparr>ref := ref (heap w s) - 1\<rparr>)"
    and next': "next_addr w' = next_addr w"
    by (simp_all add: w'_def releaseStats_def Let_def)
  have uk: "unat (ref (heap w s) - 1) = unreleased (drop_handle s h) k"
    using dk rk pos by (simp add: unat_ref_pred)
  show ?thesis
  proof (cases "1 < unat (ref (heap w s))")
    case True
    then have gt: "0 < ref (heap w s) - 1" using pos by (simp add: ref_pred_pos)
    have f': "fetches w' = fetches w"
      using gt by (simp add: w'_def releaseStats_def Let_def)
    have pk: "0 < unreleased (drop_handle s h) k" using dk rk True by simp
    have p1: "\<forall>(k', s') \<in> set (drop_handle s h). fetches w' k' = Some s'"
      using held f' by (auto dest!: set_drop_handle)
    have p2: "key (heap w' s') = k' \<and> s' < next_addr w' \<and>
          unat (ref (heap w' s')) = unreleased (drop_handle s h) k' \<and>
          0 < unreleased (drop_handle s h) k'" if a: "fetches w' k' = Some s'" for k' s'
    proof (cases "k' = k")
      case True
      with a f' fk have "s' = s" by simp
      with True rk uk pk show ?thesis by (simp add: heap' next')
    next
      case False
      from a f' have b: "fetches w k' = Some s'" by simp
      from other [OF b False] reg [OF b] dother [OF False] show ?thesis
        by (simp add: heap' next')
    qed
    show ?thesis unfolding run registry_inv_def using p1 p2 by auto
  next
    case False
    then have ngt: "\<not> 0 < ref (heap w s) - 1" using pos by (simp add: ref_pred_pos)
    have f': "fetches w' = (fetches w)(k := None)"
      using ngt rk by (simp add: w'_def releaseStats_def Let_def)
    have one: "unreleased h k = 1" using False pos rk by simp
    then have gone: "unreleased (drop_handle s h) k = 0" using dk by simp
    have nok: "(k, s') \<notin> set (drop_handle s h)" for s'
      using gone unreleased_pos [of k s' "drop_handle s h"] by auto
    have p1: "\<forall>(k', s') \<in> set (drop_handle s h). fetches w' k' = Some s'"
    proof (clarify)
      fix k' s' assume m: "(k', s') \<in> set (drop_handle s h)"
      with nok have "k' \<noteq> k" by auto
      with held [OF set_drop_handle [OF m]] f' show "fetches w' k' = Some s'" by simp
    qed
    have p2: "key (heap w' s') = k' \<and> s' < next_addr w' \<and>
          unat (ref (heap w' s')) = unreleased (drop_handle s h) k' \<and>
          0 < unreleased (drop_handle s h) k'" if a: "fetches w' k' = Some s'" for k' s'
    proof -
      from a f' have ne: "k' \<noteq> k" by (auto split: if_splits)
      with a f' have b: "fetches w k' = Some s'" by simp
      from other [OF b ne] reg [OF b] dother [OF ne] show ?thesis
        by (simp add: heap' next')
    qed
    show ?thesis unfolding run registry_inv_def using p1 p2 by auto
  qed
qed

lemma registry_inv_run_ops:
  "registry_inv c \<Longrightarrow> admissible ops c \<Longrightarrow> registry_inv (run_ops ops c)"
proof (induction ops arbitrary: c)
  case Nil
  then show ?case by simp
next
  case (Cons x xs)
  obtain w h where c: "c = (w, h)" by (cases c)
  show ?case
  proof (cases x)
    case (Acquire m n)
    with Cons.prems c have "registry_inv (run_op x c)" "admissible xs (run_op x c)"
      using registry_inv_acquire [of w h m n] by auto
    then show ?thesis using Cons.IH by simp
  next
    case (Release s)
    with Cons.prems c have "registry_inv (run_op x c)" "admissible xs (run_op x c)"
      using registry_inv_release [of w h s] by auto
    then show ?thesis using Cons.IH by simp
  qed
qed


lemma getMetricSetStats_present:
  "fetches w (stats_key m n) = Some s \<Longrightarrow>
   getMetricSetStats m n w = (s, w\<lparr>heap := (heap w)(s := (heap w s)\<lparr>ref := ref (heap w s) + 1\<rparr>)\<rparr>)"
  by (simp add: getMetricSetStats_def)

lemma getMetricSetStats_absent:
  "fetches w (stats_key m n) = None \<Longrightarrow>
   fst (getMetricSetStats m n w) = next_addr w \<and>
   heap (snd (getMetricSetStats m n w)) (next_addr w) =
     \<lparr>key = stats_key m n, ref = 1, success = 0, failures = 0, events = 0\<rparr> \<and>
   fetches (snd (getMetricSetStats m n w)) = (fetches w)(stats_key m n \<mapsto> next_addr w)"
  by (simp add: getMetricSetStats_def Let_def)

lemma releaseStats_held:
  assumes inv: "registry_inv (w, h)" and ks: "(k, s) \<in> set h"
  shows "ref (heap (releaseStats s w) s) = ref (heap w s) - 1 \<and>
         fetches (releaseStats s w) =
           (if unreleased h k = 1 then (fetches w)(k := None) else fetches w)"
proof -
  have fk: "fetches w k = Some s" using inv ks by (auto simp: registry_inv_def)
  then have rk: "key (heap w s) = k" "unat (ref (heap w s)) = unreleased h k"
      "0 < unreleased h k"
    using inv by (auto simp: registry_inv_def)
  then have "(0 < ref (heap w s) - 1) = (1 < unreleased h k)"
    using ref_pred_pos [of "ref (heap w s)"] by simp
  with rk show ?thesis
    by (auto simp: releaseStats_def Let_def)
qed

text \<open>
  Claim C2, as amended. For every sequence of \<open>getMetricSetStats\<close> (acquire) and
  \<open>releaseStats\<close> (release) calls from the start of the process in which every release gives
  back a handle of an acquisition not yet released and fewer than \<open>2^32\<close> acquisitions of any
  one key are outstanding at a time: the registry \<open>fetches\<close> has an entry for a key if and
  only if the number of unreleased acquisitions of that key is greater than 0; all handles
  outstanding for a key are the one entry registered under it, whose \<open>ref\<close> is that number;
  acquire returns the registered entry with \<open>ref\<close> incremented when there is one, and otherwise
  allocates a fresh zero-valued entry with \<open>ref = 1\<close> and registers it; release decrements
  \<open>ref\<close> and removes the entry from the registry exactly when the released acquisition was
  the last one outstanding for the key.
\<close>

theorem stats_registry_refcount:
  assumes adm: "admissible ops (init_world :: 'b world, [])"
    and run: "run_ops ops (init_world :: 'b world, []) = (w, h)"
  shows "((fetches w k \<noteq> None) = (0 < unreleased h k)) \<and>
    (\<forall>(k', s) \<in> set h. fetches w k' = Some s) \<and>
    (\<forall>s. fetches w k = Some s \<longrightarrow>
       key (heap w s) = k \<and> unat (ref (heap w s)) = unreleased h k) \<and>
    (\<forall>m n s. fetches w (stats_key m n) = Some s \<longrightarrow>
       getMetricSetStats m n w =
         (s, w\<lparr>heap := (heap w)(s := (heap w s)\<lparr>ref := ref (heap w s) + 1\<rparr>)\<rparr>)) \<and>
    (\<forall>m n. fetches w (stats_key m n) = None \<longrightarrow>
       fst (getMetricSetStats m n w) = next_addr w \<and>
       (\<forall>(k', s) \<in> set h. s \<noteq> next_addr w) \<and>
       heap (snd (getMetricSetStats m n w)) (next_addr w) =
         \<lparr>key = stats_key m n, ref = 1, success = 0, failures = 0, events = 0\<rparr> \<and>
       fetches (snd (getMetricSetStats m n w)) = (fetches w)(stats_key m n \<mapsto> next_addr w)) \<and>
    (\<forall>k' s. (k', s) \<in> set h \<longrightarrow>
       ref (heap (releaseStats s w) s) = ref (heap w s) - 1 \<and>
       fetches (releaseStats s w) =
         (if unreleased h k' = 1 then (fetches w)(k' := None) else fetches w))"
proof -
  have inv: "registry_inv (w, h)"
    using registry_inv_run_ops [OF registry_inv_init adm] run by simp
  have held: "\<And>k s. (k, s) \<in> set h \<Longrightarrow> fetches w k = Some s"
    using inv by (auto simp: registry_inv_def)
  have reg: "\<And>k s. fetches w k = Some s \<Longrightarrow>
      key (heap w s) = k \<and> s < next_addr w \<and> unat (ref (heap w s)) = unreleased h k
        \<and> 0 < unreleased h k"
    using inv by (auto simp: registry_inv_def)
  have c1: "(fetches w k \<noteq> None) = (0 < unreleased h k)"
  proof (cases "fetches w k")
    case None
    then have "unreleased h k = 0" using held by (intro unreleased_0) auto
    with None show ?thesis by simp
  next
    case (Some s)
    with reg [OF Some] show ?thesis by simp
  qed
  have c2: "\<forall>(k', s) \<in> set h. fetches w k' = Some s" using held by auto
  have c3: "\<forall>s. fetches w k = Some s \<longrightarrow>
       key (heap w s) = k \<and> unat (ref (heap w s)) = unreleased h k"
    using reg by auto
  have c5: "\<forall>(k', s) \<in> set h. s \<noteq> next_addr w"
  proof (clarify)
    fix k' assume "(k', next_addr w) \<in> set h"
    from reg [OF held [OF this]] show False by simp
  qed
  have c4: "\<forall>m n s. fetches w (stats_key m n) = Some s \<longrightarrow>
       getMetricSetStats m n w =
         (s, w\<lparr>heap := (heap w)(s := (heap w s)\<lparr>ref := ref (heap w s) + 1\<rparr>)\<rparr>)"
    by (intro allI impI) (rule getMetricSetStats_present)
  have c6: "\<forall>m n. fetches w (stats_key m n) = None \<longrightarrow>
       fst (getMetricSetStats m n w) = next_addr w \<and>
       (\<forall>(k', s) \<in> set h. s \<noteq> next_addr w) \<and>
       heap (snd (getMetricSetStats m n w)) (next_addr w) =
         \<lparr>key = stats_key m n, ref = 1, success = 0, failures = 0, events = 0\<rparr> \<and>
       fetches (snd (getMetricSetStats m n w)) = (fetches w)(stats_key m n \<mapsto> next_addr w)"
  proof (intro allI impI)
    fix m n assume "fetches w (stats_key m n) = None"
    from getMetricSetStats_absent [OF this] c5
    show "fst (getMetricSetStats m n w) = next_addr w \<and>
       (\<forall>(k', s) \<in> set h. s \<noteq> next_addr w) \<and>
       heap (snd (getMetricSetStats m n w)) (next_addr w) =
         \<lparr>key = stats_key m n, ref = 1, success = 0, failures = 0, events = 0\<rparr> \<and>
       fetches (snd (getMetricSetStats m n w)) = (fetches w)(stats_key m n \<mapsto> next_addr w)"
      by (elim conjE) (intro conjI)
  qed
  have c7: "\<forall>k' s. (k', s) \<in> set h \<longrightarrow>
       ref (heap (releaseStats s w) s) = ref (heap w s) - 1 \<and>
       fetches (releaseStats s w) =
         (if unreleased h k' = 1 then (fetches w)(k' := None) else fetches w)"
    by (intro allI impI) (rule releaseStats_held [OF inv])
  from c1 c2 c3 c4 c6 c7 show ?thesis by (intro conjI)
qed

lemma run_ops_append: "run_ops (xs @ ys) c = run_ops ys (run_ops xs c)"
  by (induction xs arbitrary: c) auto

lemma acquire_repeatedly:
  "run_ops (replicate (Suc n) (Acquire m s)) (init_world, []) =
     (acquired_world (stats_key m s) (Suc n), replicate (Suc n) (stats_key m s, 0))"
proof (induction n)
  case 0
  show ?case by (simp add: acquired_world_def init_world_def getMetricSetStats_def Let_def)
next
  case (Suc n)
  have "replicate (Suc (Suc n)) (Acquire m s) = replicate (Suc n) (Acquire m s) @ [Acquire m s]"
    by (simp only: replicate_append_same) simp
  then show ?case
    using Suc
    by (simp only: run_ops_append)
       (simp add: acquired_world_def getMetricSetStats_def Let_def add.commute)
qed

lemma unreleased_replicate: "unreleased (replicate n (k, s)) k = n"
  by (induction n) auto

lemma release_after_acquires:
  "run_ops (replicate (Suc n) (Acquire m s) @ [Release 0]) (init_world, []) =
     (releaseStats 0 (acquired_world (stats_key m s) (Suc n)), replicate n (stats_key m s, 0))"
  by (simp only: run_ops_append acquire_repeatedly) simp

lemma release_wrapped:
  "(of_nat n :: 32 word) = 1 \<Longrightarrow> fetches (releaseStats 0 (acquired_world k n)) k = None"
  by (simp add: acquired_world_def releaseStats_def Let_def)


text \<open>
  The bound matters: \<open>ref\<close> is a \<open>uint32\<close>. After \<open>2^32 + 1\<close> acquisitions of one key it has
  wrapped around to 1, so a single release deletes the entry although \<open>2^32\<close> acquisitions
  are still outstanding.
\<close>

theorem stats_registry_ref_wraps:
  "fetches (fst (run_ops (replicate (2 ^ 32 + 1) (Acquire ''m'' ''s'') @ [Release 0])
       (init_world :: unit world, []))) ''metricbeat.m.s'' = None \<and>
   unreleased (snd (run_ops (replicate (2 ^ 32 + 1) (Acquire ''m'' ''s'') @ [Release 0])
       (init_world :: unit world, []))) ''metricbeat.m.s'' = 2 ^ 32"
proof -
  have n: "(2::nat) ^ 32 + 1 = Suc (2 ^ 32)" by simp
  have k: "stats_key ''m'' ''s'' = ''metricbeat.m.s''" by (simp add: stats_key_def)
  have w: "(of_nat (Suc (2 ^ 32)) :: 32 word) = 1" by simp
  show ?thesis
    unfolding n release_after_acquires k fst_conv snd_conv
    using release_wrapped [OF w, of "''metricbeat.m.s''"]
      unreleased_replicate [of "2 ^ 32" "''metricbeat.m.s''" 0]
    by (intro conjI)
qed

theorem stats_registry_refcount_witness:
  "admissible [Acquire ''m'' ''s'', Acquire ''m'' ''s'', Release 0] (init_world :: unit world, []) \<and>
   fetches (fst (run_ops [Acquire ''m'' ''s'', Acquire ''m'' ''s'', Release 0]
       (init_world :: unit world, []))) ''metricbeat.m.s'' \<noteq> None \<and>
   unreleased (snd (run_ops [Acquire ''m'' ''s'', Acquire ''m'' ''s'', Release 0]
       (init_world :: unit world, []))) ''metricbeat.m.s'' = 1"
proof -
  let ?ops = "[Acquire ''m'' ''s'', Acquire ''m'' ''s'', Release 0]"
  let ?c = "run_ops ?ops (init_world :: unit world, [])"
  have a: "admissible ?ops (init_world :: unit world, [])"
    by (simp add: init_world_def getMetricSetStats_def releaseStats_def stats_key_def Let_def)
  have h: "snd ?c = [(''metricbeat.m.s'', 0)]"
    by (simp add: init_world_def getMetricSetStats_def releaseStats_def stats_key_def Let_def)
  have r: "?c = (fst ?c, snd ?c)" by simp
  from stats_registry_refcount [OF a r, of "''metricbeat.m.s''"] a h
  show ?thesis by simp
qed

section \<open>The event reporter: counters, timestamps, the legacy adapter\<close>

lemma select_done_add [simp]:
  "select_done s (add_success a w) = select_done s w"
  "select_done s (add_failures a w) = select_done s w"
  by (simp_all add: select_done_def observe_def add_success_def add_failures_def)

lemma select_done_cases:
  "select_done s w = TookDone \<Longrightarrow> done_closed (observe s w)"
  "select_done s w = TookOther \<Longrightarrow> other_ready s"
  "(done_closed w \<or> closes s) \<and> \<not> other_ready s \<Longrightarrow> select_done s w = TookDone"
  by (auto simp: select_done_def observe_def split: if_splits)

lemma add_counter_simps [simp]:
  "out (add_success a w) = out w" "out (add_failures a w) = out w"
  "out (add_events a w) = out w"
  "calls (add_success a w) = calls w" "calls (add_failures a w) = calls w"
  "calls (add_events a w) = calls w"
  "done_closed (add_success a w) = done_closed w" "done_closed (add_failures a w) = done_closed w"
  "done_closed (add_events a w) = done_closed w"
  by (simp_all add: add_success_def add_failures_def add_events_def)

lemma Error_prepare [simp]: "Error (prepare msw r event env) = Error event"
  by (simp add: prepare_def Let_def)

lemma Event_unfold:
  "Event mb msw r event env w =
     (case select_done (sel env) w of
        TookDone \<Rightarrow>
          (Some False,
           observe (sel env) (if Error event = None then add_success (msw_stats msw) w
              else add_failures (msw_stats msw) w))
      | TookOther \<Rightarrow>
          (Some True,
           add_events (msw_stats msw)
             ((observe (sel env) (if Error event = None then add_success (msw_stats msw) w
                 else add_failures (msw_stats msw) w))
              \<lparr>out := out w @ [BeatEvent mb (prepare msw r event env) (module_Name (module msw))
                  (metricset_Name (MetricSet msw)) (eventModifiers (module msw))]\<rparr>))
      | Blocked \<Rightarrow>
          (None,
           observe (sel env) (if Error event = None then add_success (msw_stats msw) w
              else add_failures (msw_stats msw) w)))"
  unfolding Event_def writeEvent_def Let_def
  by (cases "select_done (sel env) w"; cases "Error event") simp_all

lemma Event_result:
  "fst (Event mb msw r event env w) =
     (case select_done (sel env) w of
        TookDone \<Rightarrow> Some False | TookOther \<Rightarrow> Some True | Blocked \<Rightarrow> None)"
  by (simp add: Event_unfold split: selected.splits)

lemma Event_heap:
  "heap (snd (Event mb msw r event env w)) =
     (heap w)(msw_stats msw := (heap w (msw_stats msw))
        \<lparr>success := success (heap w (msw_stats msw)) + (if Error event = None then 1 else 0),
         failures := failures (heap w (msw_stats msw)) + (if Error event = None then 0 else 1),
         events := events (heap w (msw_stats msw)) +
           (if fst (Event mb msw r event env w) = Some True then 1 else 0)\<rparr>)"
  by (cases "select_done (sel env) w"; cases "Error event")
     (simp_all add: Event_unfold observe_def add_success_def add_failures_def add_events_def)

lemma Event_out:
  "out (snd (Event mb msw r event env w)) =
     (if fst (Event mb msw r event env w) = Some True
      then out w @ [BeatEvent mb (prepare msw r event env) (module_Name (module msw))
                      (metricset_Name (MetricSet msw)) (eventModifiers (module msw))]
      else out w)"
  by (cases "select_done (sel env) w"; cases "Error event")
     (simp_all add: Event_unfold observe_def add_success_def add_failures_def add_events_def)

lemma Event_done:
  "done_closed (snd (Event mb msw r event env w)) = (done_closed w \<or> closes (sel env))"
  by (cases "select_done (sel env) w"; cases "Error event")
     (simp_all add: Event_unfold observe_def add_success_def add_failures_def add_events_def)

lemma Event_calls: "calls (snd (Event mb msw r event env w)) = calls w"
  by (cases "select_done (sel env) w"; cases "Error event")
     (simp_all add: Event_unfold observe_def add_success_def add_failures_def add_events_def)

text \<open>
  Claim C1, as amended. A call of \<open>reporterV2.Event\<close> with an event that carries an error
  adds exactly 1 to the \<open>failures\<close> counter of the worker's stats and leaves \<open>success\<close> as it
  was; with an event without an error it adds exactly 1 to \<open>success\<close> and leaves
  \<open>failures\<close>. The \<open>events\<close> counter grows by exactly 1 if and only if the call returns
  \<open>true\<close>, which is exactly when the event has been sent on \<open>out\<close>. The call returns \<open>false\<close>
  exactly when the select in \<open>writeEvent\<close> takes the shutdown branch: only once \<open>done\<close> has
  been closed, and always when \<open>done\<close> is closed and the send cannot proceed. When \<open>done\<close> is
  closed and the send can proceed as well, the runtime chooses: the call returns \<open>false\<close> or
  it sends the event, returns \<open>true\<close> and counts it in \<open>events\<close>. No other stats entry
  changes.
\<close>

theorem report_counters:
  assumes "Event mb msw r event env w = (res, w')"
  shows "(Error event \<noteq> None \<longrightarrow>
            failures (heap w' (msw_stats msw)) = failures (heap w (msw_stats msw)) + 1 \<and>
            success (heap w' (msw_stats msw)) = success (heap w (msw_stats msw))) \<and>
         (Error event = None \<longrightarrow>
            success (heap w' (msw_stats msw)) = success (heap w (msw_stats msw)) + 1 \<and>
            failures (heap w' (msw_stats msw)) = failures (heap w (msw_stats msw))) \<and>
         events (heap w' (msw_stats msw)) =
            events (heap w (msw_stats msw)) + (if res = Some True then 1 else 0) \<and>
         out w' =
            (if res = Some True
             then out w @ [BeatEvent mb (prepare msw r event env) (module_Name (module msw))
                             (metricset_Name (MetricSet msw)) (eventModifiers (module msw))]
             else out w) \<and>
         (res = Some False) = (select_done (sel env) w = TookDone) \<and>
         (res = Some False) =
            ((done_closed w \<or> closes (sel env)) \<and> (other_ready (sel env) \<longrightarrow> coin (sel env))) \<and>
         (res = Some True) =
            (other_ready (sel env) \<and> (done_closed w \<or> closes (sel env) \<longrightarrow> \<not> coin (sel env))) \<and>
         ((done_closed w \<or> closes (sel env)) \<and> \<not> other_ready (sel env) \<longrightarrow> res = Some False) \<and>
         (res = Some False \<longrightarrow> done_closed w') \<and>
         (\<forall>s. s \<noteq> msw_stats msw \<longrightarrow> heap w' s = heap w s)"
proof -
  have res: "res = fst (Event mb msw r event env w)" and w': "w' = snd (Event mb msw r event env w)"
    using assms by simp_all
  have r1: "(res = Some False) = (select_done (sel env) w = TookDone)"
    by (simp add: res Event_result split: selected.splits)
  have r2: "(res = Some False) =
      ((done_closed w \<or> closes (sel env)) \<and> (other_ready (sel env) \<longrightarrow> coin (sel env)))"
    unfolding r1 by (simp add: select_done_def observe_def)
  have r3: "(res = Some True) =
      (other_ready (sel env) \<and> (done_closed w \<or> closes (sel env) \<longrightarrow> \<not> coin (sel env)))"
    by (simp add: res Event_result select_done_def observe_def)
  have r4: "(done_closed w \<or> closes (sel env)) \<and> \<not> other_ready (sel env) \<longrightarrow> res = Some False"
    unfolding r2 by simp
  have dc: "res = Some False \<longrightarrow> done_closed w'"
    unfolding r2 by (simp add: w' Event_done)
  have h: "heap w' (msw_stats msw) = (heap w (msw_stats msw))
        \<lparr>success := success (heap w (msw_stats msw)) + (if Error event = None then 1 else 0),
         failures := failures (heap w (msw_stats msw)) + (if Error event = None then 0 else 1),
         events := events (heap w (msw_stats msw)) + (if res = Some True then 1 else 0)\<rparr>"
    and h': "\<forall>s. s \<noteq> msw_stats msw \<longrightarrow> heap w' s = heap w s"
    by (simp_all add: w' Event_heap res [symmetric])
  have o: "out w' =
            (if res = Some True
             then out w @ [BeatEvent mb (prepare msw r event env) (module_Name (module msw))
                             (metricset_Name (MetricSet msw)) (eventModifiers (module msw))]
             else out w)"
    by (simp add: w' Event_out res [symmetric])
  have c1: "Error event \<noteq> None \<longrightarrow>
            failures (heap w' (msw_stats msw)) = failures (heap w (msw_stats msw)) + 1 \<and>
            success (heap w' (msw_stats msw)) = success (heap w (msw_stats msw))"
    and c2: "Error event = None \<longrightarrow>
            success (heap w' (msw_stats msw)) = success (heap w (msw_stats msw)) + 1 \<and>
            failures (heap w' (msw_stats msw)) = failures (heap w (msw_stats msw))"
    and c3: "events (heap w' (msw_stats msw)) =
            events (heap w (msw_stats msw)) + (if res = Some True then 1 else 0)"
    by (simp_all add: h)
  from c1 c2 c3 o r1 r2 r3 r4 dc h' show ?thesis by (intro conjI)
qed

text \<open>
  The claim as it was stated promised \<open>false\<close> whenever shutdown has fired before the write
  completes. Here \<open>done\<close> is closed before the call and \<open>out\<close> can take the event; the
  runtime chooses the send: the call returns \<open>true\<close> and \<open>events\<close> is incremented.
\<close>

theorem report_accepted_after_shutdown:
  "done_closed (example_world\<lparr>done_closed := True\<rparr>) \<and>
   fst (Event example_mb example_polling \<lparr>start = 0\<rparr> (error_event None)
      (example_env sending) (example_world\<lparr>done_closed := True\<rparr>)) = Some True \<and>
   events (heap (snd (Event example_mb example_polling \<lparr>start = 0\<rparr> (error_event None)
      (example_env sending) (example_world\<lparr>done_closed := True\<rparr>))) 0) = 1 \<and>
   length (out (snd (Event example_mb example_polling \<lparr>start = 0\<rparr> (error_event None)
      (example_env sending) (example_world\<lparr>done_closed := True\<rparr>)))) = 1"
proof -
  have a: "fst (Event example_mb example_polling \<lparr>start = 0\<rparr> (error_event None)
      (example_env sending) (example_world\<lparr>done_closed := True\<rparr>)) = Some True"
    by (simp add: Event_result) (simp add: example_env_def sending_def select_done_def observe_def)
  have b: "msw_stats example_polling = 0" "events (heap example_world 0) = 0"
    "out example_world = []"
    by (simp_all add: example_defs getMetricSetStats_def stats_key_def init_world_def Let_def)
  from a b show ?thesis by (simp add: Event_heap Event_out)
qed

theorem report_counters_witness:
  "fst (Event example_mb example_polling \<lparr>start = 0\<rparr> (error_event (Some ''boom''))
      (example_env shutdown) example_world) = Some False \<and>
   failures (heap (snd (Event example_mb example_polling \<lparr>start = 0\<rparr>
      (error_event (Some ''boom'')) (example_env shutdown) example_world)) 0) = 1 \<and>
   success (heap (snd (Event example_mb example_polling \<lparr>start = 0\<rparr>
      (error_event (Some ''boom'')) (example_env shutdown) example_world)) 0) = 0 \<and>
   events (heap (snd (Event example_mb example_polling \<lparr>start = 0\<rparr>
      (error_event (Some ''boom'')) (example_env shutdown) example_world)) 0) = 0 \<and>
   fst (Event example_mb example_polling \<lparr>start = 0\<rparr> (error_event None)
      (example_env sending) example_world) = Some True \<and>
   success (heap (snd (Event example_mb example_polling \<lparr>start = 0\<rparr> (error_event None)
      (example_env sending) example_world)) 0) = 1 \<and>
   events (heap (snd (Event example_mb example_polling \<lparr>start = 0\<rparr> (error_event None)
      (example_env sending) example_world)) 0) = 1"
proof -
  note t1 = report_counters [OF surjective_pairing, where mb = example_mb
      and msw = example_polling and r = "\<lparr>start = 0\<rparr>"
      and event = "error_event (Some ''boom'')" and env = "example_env shutdown"
      and w = example_world]
  note t2 = report_counters [OF surjective_pairing, where mb = example_mb
      and msw = example_polling and r = "\<lparr>start = 0\<rparr>"
      and event = "error_event None" and env = "example_env sending"
      and w = example_world]
  have 1: "Error (error_event (Some ''boom'') :: unit mb_event) \<noteq> None"
    "Error (error_event None :: unit mb_event) = None"
    by (simp_all add: error_event_def)
  have 2: "select_done (sel (example_env shutdown)) example_world = TookDone"
    by (simp add: example_defs worker_defs)
  have 3: "msw_stats example_polling = 0"
    by (simp add: example_defs)
  have 4: "failures (heap example_world 0) = 0" "success (heap example_world 0) = 0"
    "events (heap example_world 0) = 0"
    by (simp_all add: example_defs worker_defs)
  have 5: "fst (Event example_mb example_polling \<lparr>start = 0\<rparr> (error_event None)
      (example_env sending) example_world) = Some True"
    by (simp add: Event_result) (simp add: example_defs worker_defs)
  from t1 t2 1 2 3 4 5 show ?thesis by simp
qed

text \<open>
  Claim C4. Wall clocks do not read the zero time (January 1 of the year 1), so let the
  readings of \<open>time.Now\<close> be non-zero. Then the event that \<open>reporterV2.Event\<close> hands to
  \<open>BeatEvent\<close>, and sends when the write is accepted, never has a zero timestamp. For an
  event passed with a zero timestamp the timestamp is the time \<open>StartFetchTimer\<close> recorded
  when the fetch timer has been started, and otherwise (a reporter as \<open>run\<close> creates it, or
  any reporter whose \<open>start\<close> is zero) the clock read at the call; an event passed with a
  non-zero timestamp keeps it.
\<close>

theorem report_timestamp:
  assumes clock: "\<not> IsZero (stamp_now env)" "\<not> IsZero now"
  shows "\<not> IsZero (Timestamp (prepare msw r event env)) \<and>
     (IsZero (Timestamp event) \<longrightarrow>
        Timestamp (prepare msw (StartFetchTimer now r) event env) = now \<and>
        Timestamp (prepare msw \<lparr>start = 0\<rparr> event env) = stamp_now env \<and>
        Timestamp (prepare msw r event env) =
          (if IsZero (start r) then stamp_now env else start r)) \<and>
     (\<not> IsZero (Timestamp event) \<longrightarrow> Timestamp (prepare msw r event env) = Timestamp event) \<and>
     (fst (Event mb msw r event env w) = Some True \<longrightarrow>
        out (snd (Event mb msw r event env w)) =
          out w @ [BeatEvent mb (prepare msw r event env) (module_Name (module msw))
                     (metricset_Name (MetricSet msw)) (eventModifiers (module msw))])"
  using clock
  by (simp add: Event_out) (simp add: prepare_def Let_def StartFetchTimer_def IsZero_def)

theorem report_timestamp_witness:
  "\<not> IsZero (stamp_now (example_env sending)) \<and> \<not> IsZero 1000 \<and>
   Timestamp (prepare example_polling (StartFetchTimer 1000 \<lparr>start = 0\<rparr>)
      (error_event None) (example_env sending)) = 1000 \<and>
   Timestamp (prepare example_polling \<lparr>start = 0\<rparr>
      (error_event None) (example_env sending)) = 3000"
  using report_timestamp [where env = "example_env sending" and now = 1000
      and msw = example_polling and r = "\<lparr>start = 0\<rparr>"
      and event = "error_event None :: unit mb_event" and mb = example_mb and w = init_world]
  by (simp add: example_env_def IsZero_def error_event_def)

text \<open>
  Claim C7. For the \<open>channelContext\<close> that wraps a done channel: \<open>Deadline\<close> always reports
  no deadline (the zero time and \<open>false\<close>); \<open>Done\<close> is the very channel it wraps; \<open>Err\<close> is
  \<open>context.Canceled\<close> when that channel has been closed and nil before.
\<close>

theorem channelContext_contract:
  "snd (Deadline r) = False \<and> fst (Deadline r) = 0 \<and>
   Done \<lparr>ctx_done = d\<rparr> = d \<and>
   Err closed r = (if closed (Done r) then Some Canceled else None)"
  by (simp add: Deadline_def Done_def Err_def)

text \<open>
  Claim C8. A call of the legacy reporter with neither an error nor a map (\<open>ErrorWith(nil,
  nil)\<close>, and so \<open>Event(nil)\<close> and \<open>Error(nil)\<close>) is skipped: it returns \<open>true\<close> and leaves the
  state as it was, so no event is forwarded and no counter changes. Any other call, be it
  of \<open>ErrorWith\<close>, of \<open>Event\<close> with a map or of \<open>Error\<close> with an error, forwards the event
  \<open>mb.TransformMapStrToEvent\<close> makes of the name of the module, the map and the error to
  \<open>reporterV2.Event\<close> and returns what that returns.
\<close>

theorem legacy_reporter_skips_nil:
  "ErrorWith mb msw r None None env w = (Some True, w) \<and>
   reporterV1 mb msw r (V1_Event None) env w = (Some True, w) \<and>
   reporterV1 mb msw r (V1_Error None) env w = (Some True, w) \<and>
   (err \<noteq> None \<or> meta \<noteq> None \<longrightarrow>
      ErrorWith mb msw r err meta env w =
        Event mb msw r (TransformMapStrToEvent mb (module_Name (module msw)) meta err) env w) \<and>
   (meta \<noteq> None \<longrightarrow>
      reporterV1 mb msw r (V1_Event meta) env w =
        Event mb msw r (TransformMapStrToEvent mb (module_Name (module msw)) meta None) env w) \<and>
   (err \<noteq> None \<longrightarrow>
      reporterV1 mb msw r (V1_Error err) env w =
        Event mb msw r (TransformMapStrToEvent mb (module_Name (module msw)) None err) env w) \<and>
   (err \<noteq> None \<or> meta \<noteq> None \<longrightarrow>
      reporterV1 mb msw r (V1_ErrorWith err meta) env w =
        Event mb msw r (TransformMapStrToEvent mb (module_Name (module msw)) meta err) env w) \<and>
   reporterV1 mb msw r (V1_ErrorWith None None) env w = (Some True, w)"
  by (simp add: ErrorWith_def)

theorem legacy_reporter_skips_nil_witness:
  "ErrorWith example_mb example_polling \<lparr>start = 0\<rparr> (Some ''boom'') None
      (example_env sending) example_world =
   Event example_mb example_polling \<lparr>start = 0\<rparr>
      (TransformMapStrToEvent example_mb ''system'' None (Some ''boom''))
      (example_env sending) example_world \<and>
   reporterV1 example_mb example_polling \<lparr>start = 0\<rparr> (V1_Error (Some ''boom''))
      (example_env sending) example_world =
   Event example_mb example_polling \<lparr>start = 0\<rparr>
      (TransformMapStrToEvent example_mb ''system'' None (Some ''boom''))
      (example_env sending) example_world \<and>
   failures (heap (snd (reporterV1 example_mb example_polling \<lparr>start = 0\<rparr>
      (V1_Error (Some ''boom'')) (example_env sending) example_world)) 0) = 1 \<and>
   length (out (snd (reporterV1 example_mb example_polling \<lparr>start = 0\<rparr>
      (V1_Event (Some ())) (example_env sending) example_world))) = 1"
proof -
  have 1: "module_Name (module example_polling) = ''system''" "msw_stats example_polling = 0"
    "failures (heap example_world 0) = 0" "out example_world = []"
    "Error (TransformMapStrToEvent example_mb ''system'' None (Some ''boom'')) \<noteq> None"
    by (simp_all add: example_defs getMetricSetStats_def stats_key_def init_world_def Let_def)
  have 2: "fst (Event example_mb example_polling \<lparr>start = 0\<rparr> e (example_env sending)
      example_world) = Some True" for e
    by (simp add: Event_result)
       (simp add: example_defs select_done_def observe_def getMetricSetStats_def init_world_def
          Let_def)
  from legacy_reporter_skips_nil [where mb = example_mb and msw = example_polling
      and r = "\<lparr>start = 0\<rparr>" and env = "example_env sending" and w = example_world
      and err = "Some ''boom''" and meta = None]
    legacy_reporter_skips_nil [where mb = example_mb and msw = example_polling
      and r = "\<lparr>start = 0\<rparr>" and env = "example_env sending" and w = example_world
      and err = None and meta = "Some ()"] 1 2
  show ?thesis by (simp add: Event_heap Event_out)
qed

text \<open>The counters of every stats entry stay in order.\<close>

lemma counters_ok_Event:
  assumes "counters_ok w"
  shows "counters_ok (snd (Event mb msw r event env w))"
proof -
  have a: "events (heap w s) \<le> success (heap w s) + failures (heap w s)" for s
    using assms by (simp add: counters_ok_def)
  show ?thesis
    unfolding counters_ok_def
  proof
    fix s
    show "events (heap (snd (Event mb msw r event env w)) s)
        \<le> success (heap (snd (Event mb msw r event env w)) s) +
          failures (heap (snd (Event mb msw r event env w)) s)"
      using a [of s] a [of "msw_stats msw"] by (simp add: Event_heap)
  qed
qed

lemma counters_ok_reports: "counters_ok w \<Longrightarrow> counters_ok (reports mb cs w)"
  by (induction cs arbitrary: w) (auto simp: counters_ok_Event)

lemma counters_ok_init: "counters_ok init_world"
  by (simp add: counters_ok_def init_world_def zero_stats_def)

lemma counters_ok_getMetricSetStats:
  "counters_ok w \<Longrightarrow> counters_ok (snd (getMetricSetStats m n w))"
  by (auto simp: counters_ok_def getMetricSetStats_def Let_def split: option.splits)

lemma counters_ok_releaseStats: "counters_ok w \<Longrightarrow> counters_ok (releaseStats s w)"
  by (auto simp: counters_ok_def releaseStats_def Let_def)

section \<open>Properties kept by every step of a worker\<close>

lemma pres_ErrorWith:
  assumes "\<And>r event env w. P w \<Longrightarrow> P (snd (Event mb msw r event env w))"
  shows "P w \<Longrightarrow> P (snd (ErrorWith mb msw r err meta env w))"
  using assms by (simp add: ErrorWith_def)

lemma pres_reporterV1:
  assumes "\<And>r event env w. P w \<Longrightarrow> P (snd (Event mb msw r event env w))"
  shows "P w \<Longrightarrow> P (snd (reporterV1 mb msw r c env w))"
  using pres_ErrorWith [where P = P and mb = mb and msw = msw, OF assms] by (cases c) simp_all

lemma pres_reporterV2:
  assumes "\<And>r event env w. P w \<Longrightarrow> P (snd (Event mb msw r event env w))"
  shows "P w \<Longrightarrow> P (snd (reporterV2 mb msw r c env w))"
  using assms by (cases c) (simp_all add: Error_V2_def)

lemma pres_report_all:
  assumes "\<And>c env w. P w \<Longrightarrow> P (snd (rep c env w))"
  shows "P w \<Longrightarrow> P (snd (report_all rep cs w))"
proof (induction cs arbitrary: w)
  case Nil
  then show ?case by simp
next
  case (Cons x cs)
  obtain c env where x: "x = (c, env)" by (cases x)
  obtain res w' where s: "rep c env w = (res, w')" by (cases "rep c env w")
  from assms [OF Cons.prems, of c env] s have "P w'" by simp
  with Cons.IH x s show ?case by (cases res) simp_all
qed

lemma pres_invoke:
  assumes "\<And>c env w. P w \<Longrightarrow> P (snd (rep c env w))"
  shows "P w \<Longrightarrow> P (snd (invoke rep beh w))"
  using pres_report_all [where P = P and rep = rep and w = w and cs = "fst beh", OF assms]
  by (auto simp: invoke_def split: prod.splits bool.splits)

lemma pres_after_fetch:
  assumes E: "\<And>r event env w. P w \<Longrightarrow> P (snd (Event mb msw r event env w))"
    and L: "\<And>c w. P w \<Longrightarrow> P (log_call c w)"
  shows "P (snd res) \<Longrightarrow> P (snd (after_fetch mb msw r fe res))"
proof -
  assume p: "P (snd res)"
  obtain e w where res: "res = (e, w)" by (cases res)
  have pw: "P w" using p res by simp
  show ?thesis
  proof (cases e)
    case (Returns x)
    show ?thesis
    proof (cases x)
      case None
      with Returns res L [OF pw] show ?thesis by (simp add: after_fetch_def)
    next
      case (Some err)
      obtain b w' where ev: "Error_V2 mb msw r (Some err) (error_env fe) w = (b, w')"
        by (cases "Error_V2 mb msw r (Some err) (error_env fe) w")
      have "P w'" using E [OF pw, of r "error_event (Some err)" "error_env fe"] ev
        by (simp add: Error_V2_def)
      with Returns Some res ev L show ?thesis
        by (cases b) (simp_all add: after_fetch_def)
    qed
  next
    case Panics
    with res pw show ?thesis by (simp add: after_fetch_def)
  next
    case Hangs
    with res pw show ?thesis by (simp add: after_fetch_def)
  qed
qed

lemma pres_fetch:
  assumes E: "\<And>r event env w. P w \<Longrightarrow> P (snd (Event mb msw r event env w))"
    and L: "\<And>c w. P w \<Longrightarrow> P (log_call c w)"
  shows "P w \<Longrightarrow> P (snd (snd (fetch mb msw r i fe w)))"
proof -
  assume p: "P w"
  have l: "P (log_call (CallFetch i) w)" using L p .
  have v1: "P (snd (invoke (reporterV1 mb msw r') beh (log_call (CallFetch i) w)))" for r' beh
    by (rule pres_invoke [where P = P, OF pres_reporterV1 [where P = P, OF E] l])
  have v2: "P (snd (invoke (reporterV2 mb msw r') beh (log_call (CallFetch i) w)))" for r' beh
    by (rule pres_invoke [where P = P, OF pres_reporterV2 [where P = P, OF E] l])
  have v3: "P (snd (after_fetch mb msw r' fe
      (invoke (reporterV2 mb msw r') beh (log_call (CallFetch i) w))))" for r' beh
    by (rule pres_after_fetch [where P = P, OF E L v2])
  show ?thesis
  proof (cases "fetch_method (MetricSet msw)")
    case None
    with p show ?thesis by (simp add: fetch_def)
  next
    case (Some fm)
    show ?thesis
    proof (cases fm)
      case (ReportingMetricSet f)
      with Some v1 [of "StartFetchTimer (fetch_clock fe) r" "f i"] show ?thesis
        by (simp add: fetch_def Let_def split_beta)
    next
      case (ReportingMetricSetV2 f)
      with Some v2 [of "StartFetchTimer (fetch_clock fe) r" "f i"] show ?thesis
        by (simp add: fetch_def Let_def split_beta)
    next
      case (ReportingMetricSetV2Error f)
      with Some v3 [of "StartFetchTimer (fetch_clock fe) r" "f i"] show ?thesis
        by (simp add: fetch_def Let_def split_beta)
    next
      case (ReportingMetricSetV2WithContext f)
      with Some v3 [of "StartFetchTimer (fetch_clock fe) r" "f i"] show ?thesis
        by (simp add: fetch_def Let_def split_beta)
    qed
  qed
qed

lemma pres_fetch_loop:
  assumes E: "\<And>r event env w. P w \<Longrightarrow> P (snd (Event mb msw r event env w))"
    and L: "\<And>c w. P w \<Longrightarrow> P (log_call c w)"
    and O: "\<And>s w. P w \<Longrightarrow> P (observe s w)"
  shows "P w \<Longrightarrow> P (snd (fetch_loop mb msw r i ts w))"
proof (induction ts arbitrary: r i w)
  case Nil
  then show ?case by simp
next
  case (Cons x ts)
  obtain s fe where x: "x = (s, fe)" by (cases x)
  have o: "P (observe s w)" using O Cons.prems .
  obtain e r' w' where f: "fetch mb msw r i fe (observe s w) = (e, r', w')"
    by (cases "fetch mb msw r i fe (observe s w)")
  have "P w'" using pres_fetch [where P = P, OF E L o, of r i fe] f by simp
  with Cons.IH o x f show ?case
    by (simp split: selected.splits ending.splits)
qed

lemma pres_startPeriodicFetching:
  assumes E: "\<And>r event env w. P w \<Longrightarrow> P (snd (Event mb (msw\<lparr>periodic := True\<rparr>) r event env w))"
    and L: "\<And>c w. P w \<Longrightarrow> P (log_call c w)"
    and O: "\<And>s w. P w \<Longrightarrow> P (observe s w)"
  shows "P w \<Longrightarrow> P (snd (snd (startPeriodicFetching mb msw r first ts w)))"
proof -
  assume p: "P w"
  obtain e r' w' where f: "fetch mb (msw\<lparr>periodic := True\<rparr>) r 0 first w = (e, r', w')"
    by (cases "fetch mb (msw\<lparr>periodic := True\<rparr>) r 0 first w")
  have p': "P w'" using pres_fetch [where P = P, OF E L p, of r 0 first] f
    by simp
  have "P (snd (fetch_loop mb (msw\<lparr>periodic := True\<rparr>) r' 1 ts w'))"
    by (rule pres_fetch_loop [where P = P, OF E L O p'])
  with p' f show ?thesis
    by (simp add: startPeriodicFetching_def Let_def split_beta split: ending.splits)
qed

lemma pres_dispatch:
  assumes E: "\<And>m r event env w. P w \<Longrightarrow> P (snd (Event mb m r event env w))"
    and L: "\<And>c w. P w \<Longrightarrow> P (log_call c w)"
    and O: "\<And>s w. P w \<Longrightarrow> P (observe s w)"
  shows "P w \<Longrightarrow> P (snd (snd (dispatch mb msw p w)))"
proof -
  assume p: "P w"
  have l: "P (log_call c w)" for c using L p .
  have v1: "P (snd (invoke (reporterV1 mb msw r') beh (log_call CallRun w)))" for r' beh
    by (rule pres_invoke [where P = P, OF pres_reporterV1 [where P = P, OF E] l])
  have v2: "P (snd (invoke (reporterV2 mb msw r') beh (log_call CallRun w)))" for r' beh
    by (rule pres_invoke [where P = P, OF pres_reporterV2 [where P = P, OF E] l])
  have v3: "P (snd (snd (startPeriodicFetching mb msw r' fe ts w)))" for r' fe ts
    by (rule pres_startPeriodicFetching [where P = P, OF E L O p])
  show ?thesis
  proof (cases "run_method (MetricSet msw)")
    case None
    with l [of LogErr] v3 [of "\<lparr>start = 0\<rparr>" "first_fetch p" "ticks p"] show ?thesis
      by (simp add: dispatch_def Let_def split: option.splits)
  next
    case (Some rm)
    show ?thesis
    proof (cases rm)
      case (PushMetricSet ms)
      with Some v1 [of "\<lparr>start = 0\<rparr>" ms] show ?thesis
        by (simp add: dispatch_def Let_def split_beta)
    next
      case (PushMetricSetV2 ms)
      with Some v2 [of "\<lparr>start = 0\<rparr>" ms] show ?thesis
        by (simp add: dispatch_def Let_def split_beta)
    next
      case (PushMetricSetV2WithContext ms)
      with Some v2 [of "\<lparr>start = 0\<rparr>" ms] show ?thesis
        by (simp add: dispatch_def Let_def split_beta)
    qed
  qed
qed

lemma pres_run:
  assumes E: "\<And>m r event env w. P w \<Longrightarrow> P (snd (Event mb m r event env w))"
    and L: "\<And>c w. P w \<Longrightarrow> P (log_call c w)"
    and O: "\<And>s w. P w \<Longrightarrow> P (observe s w)"
  shows "P w \<Longrightarrow> P (snd (snd (run mb msw p w)))"
proof -
  assume p: "P w"
  have o: "P (observe s w)" for s using O p .
  have d: "P (snd (snd (dispatch mb msw p w')))" if "P w'" for w'
    by (rule pres_dispatch [where P = P, OF E L O that])
  show ?thesis
    using o d [OF p] d [OF o]
    by (simp add: run_def Let_def split_beta split: selected.splits)
qed

lemma pres_worker:
  assumes E: "\<And>m r event env w. P w \<Longrightarrow> P (snd (Event mb m r event env w))"
    and L: "\<And>c w. P w \<Longrightarrow> P (log_call c w)"
    and O: "\<And>s w. P w \<Longrightarrow> P (observe s w)"
    and R: "\<And>s w. P w \<Longrightarrow> P (releaseStats s w)"
  shows "P w \<Longrightarrow> P (snd (snd (worker mb msw p w)))"
proof -
  assume p: "P w"
  let ?w2 = "log_call (UpdateStatus Starting (starting_message msw))
      (log_call (RegistryAdd (metricset_ID (MetricSet msw))) w)"
  have w2: "P ?w2" using L p by simp
  have r: "P (snd (snd (run mb msw p ?w2)))" by (rule pres_run [where P = P, OF E L O w2])
  let ?m = "fst (snd (run mb msw p ?w2))"
  have c: "P (close_metricset ?m (snd (snd (run mb msw p ?w2))))"
    using L r by (simp add: close_metricset_def)
  have "P (log_call (RegistryRemove (metricset_ID (MetricSet msw)))
      (releaseStats (msw_stats ?m) (close_metricset ?m (snd (snd (run mb msw p ?w2))))))"
    by (rule L [OF R [OF c]])
  with r show ?thesis
    by (simp add: worker_def Let_def split_beta split: bool.splits)
qed


section \<open>Channels and calls\<close>

lemma observe_simps [simp]:
  "calls (observe s w) = calls w" "out (observe s w) = out w" "heap (observe s w) = heap w"
  "fetches (observe s w) = fetches w"
  "done_closed (observe s w) = (done_closed w \<or> closes s)"
  by (simp_all add: observe_def)

lemma log_call_simps [simp]:
  "calls (log_call c w) = calls w @ [c]" "out (log_call c w) = out w"
  "heap (log_call c w) = heap w" "done_closed (log_call c w) = done_closed w"
  by (simp_all add: log_call_def)

lemma select_done_closed: "done_closed w \<Longrightarrow> \<not> other_ready s \<Longrightarrow> select_done s w = TookDone"
  by (simp add: select_done_def)

lemma done_closed_Event: "done_closed w \<Longrightarrow> done_closed (snd (Event mb msw r event env w))"
  by (simp add: Event_done)

lemma done_closed_fetch: "done_closed w \<Longrightarrow> done_closed (snd (snd (fetch mb msw r i fe w)))"
  by (rule pres_fetch [where P = done_closed]) (simp_all add: done_closed_Event)

lemma calls_reporterV1: "calls (snd (reporterV1 mb msw r c env w)) = calls w"
  by (rule pres_reporterV1 [where P = "\<lambda>w'. calls w' = calls w"]) (simp_all add: Event_calls)

lemma calls_reporterV2: "calls (snd (reporterV2 mb msw r c env w)) = calls w"
  by (rule pres_reporterV2 [where P = "\<lambda>w'. calls w' = calls w"]) (simp_all add: Event_calls)

lemma calls_invoke_V1: "calls (snd (invoke (reporterV1 mb msw r) beh w)) = calls w"
  by (rule pres_invoke [where P = "\<lambda>w'. calls w' = calls w"]) (simp_all add: calls_reporterV1)

lemma calls_invoke_V2: "calls (snd (invoke (reporterV2 mb msw r) beh w)) = calls w"
  by (rule pres_invoke [where P = "\<lambda>w'. calls w' = calls w"]) (simp_all add: calls_reporterV2)

lemma invoke_ending:
  "fst (invoke rep beh w) = Hangs \<or> fst (invoke rep beh w) = snd beh"
  by (simp add: invoke_def split_beta split: bool.splits)

lemma calls_Error_V2: "calls (snd (Error_V2 mb msw r err env w)) = calls w"
  by (simp add: Error_V2_def Event_calls)

lemma after_fetch_calls:
  "calls (snd (after_fetch mb msw r fe (e, w))) =
     calls w @
       (case fst (after_fetch mb msw r fe (e, w)) of
          Returns u \<Rightarrow>
            [case e of Returns (Some err) \<Rightarrow> UpdateStatus Degraded (degraded_message msw err)
                     | _ \<Rightarrow> UpdateStatus Running []]
        | _ \<Rightarrow> [])"
proof (cases e)
  case (Returns x)
  show ?thesis
  proof (cases x)
    case None
    with Returns show ?thesis by (simp add: after_fetch_def)
  next
    case (Some err)
    obtain b w' where ev: "Error_V2 mb msw r (Some err) (error_env fe) w = (b, w')"
      by (cases "Error_V2 mb msw r (Some err) (error_env fe) w")
    then have "calls w' = calls w"
      using calls_Error_V2 [of mb msw r "Some err" "error_env fe" w] by simp
    with Returns Some ev show ?thesis by (cases b) (simp_all add: after_fetch_def)
  qed
next
  case Panics
  then show ?thesis by (simp add: after_fetch_def)
next
  case Hangs
  then show ?thesis by (simp add: after_fetch_def)
qed

lemma after_fetch_returns:
  "fst (after_fetch mb msw r fe (e, w)) = Returns u \<Longrightarrow> \<exists>x. e = Returns x"
  by (cases e) (simp_all add: after_fetch_def)

text \<open>The calls one fetch cycle makes, by the interface of the MetricSet.\<close>

lemma fetch_calls_plain:
  assumes "fetch_method (MetricSet msw) = Some (ReportingMetricSet f) \<or>
           fetch_method (MetricSet msw) = Some (ReportingMetricSetV2 g)"
  shows "calls (snd (snd (fetch mb msw r i fe w))) = calls w @ [CallFetch i]"
  using assms
  by (auto simp: fetch_def Let_def split_beta calls_invoke_V1 calls_invoke_V2)

lemma fetch_calls_error:
  assumes "fetch_method (MetricSet msw) = Some (ReportingMetricSetV2Error f) \<or>
           fetch_method (MetricSet msw) = Some (ReportingMetricSetV2WithContext f)"
  shows "calls (snd (snd (fetch mb msw r i fe w))) =
     calls w @ CallFetch i #
       (case fst (fetch mb msw r i fe w) of
          Returns u \<Rightarrow>
            [case snd (f i) of
               Returns (Some err) \<Rightarrow> UpdateStatus Degraded (degraded_message msw err)
             | _ \<Rightarrow> UpdateStatus Running []]
        | _ \<Rightarrow> [])"
proof -
  let ?r = "StartFetchTimer (fetch_clock fe) r"
  let ?i = "invoke (reporterV2 mb msw ?r) (f i) (log_call (CallFetch i) w)"
  have f: "fetch mb msw r i fe w =
      (fst (after_fetch mb msw ?r fe ?i), ?r, snd (after_fetch mb msw ?r fe ?i))"
    using assms by (auto simp: fetch_def Let_def split_beta)
  have c: "calls (snd ?i) = calls w @ [CallFetch i]"
    by (simp add: calls_invoke_V2)
  note a = after_fetch_calls [of mb msw ?r fe "fst ?i" "snd ?i", unfolded prod.collapse]
  show ?thesis
  proof (cases "fst (after_fetch mb msw ?r fe ?i)")
    case (Returns u)
    then obtain x where x: "fst ?i = Returns x"
      using after_fetch_returns [of mb msw ?r fe "fst ?i" "snd ?i" u, unfolded prod.collapse]
      by auto
    with invoke_ending [of "reporterV2 mb msw ?r" "f i" "log_call (CallFetch i) w"]
    have "snd (f i) = Returns x" by auto
    with a c f Returns x show ?thesis by simp
  next
    case Panics
    with a c f show ?thesis by simp
  next
    case Hangs
    with a c f show ?thesis by simp
  qed
qed

lemma fetch_calls:
  assumes "fetch_method (MetricSet msw) = Some fm"
  shows "\<exists>st. calls (snd (snd (fetch mb msw r i fe w))) = calls w @ CallFetch i # st \<and>
           filter is_fetch st = []"
proof (cases fm)
  case (ReportingMetricSet f)
  with assms fetch_calls_plain [of msw f _ mb r i fe w] show ?thesis by simp
next
  case (ReportingMetricSetV2 g)
  with assms fetch_calls_plain [of msw _ g mb r i fe w] show ?thesis by simp
next
  case (ReportingMetricSetV2Error f)
  with assms fetch_calls_error [of msw f mb r i fe w] show ?thesis
    by (auto split: ending.splits option.splits)
next
  case (ReportingMetricSetV2WithContext f)
  with assms fetch_calls_error [of msw f mb r i fe w] show ?thesis
    by (auto split: ending.splits option.splits)
qed


lemma releaseStats_simps [simp]:
  "calls (releaseStats s w) = calls w" "out (releaseStats s w) = out w"
  by (simp_all add: releaseStats_def Let_def)

lemma calls_close_metricset:
  "calls (close_metricset msw w) = calls w @ (if closer (MetricSet msw) then [CallClose] else [])"
  by (simp add: close_metricset_def)


lemma calls_grow_fetch_loop:
  "\<exists>rest. calls w = pre @ rest \<Longrightarrow>
   \<exists>rest. calls (snd (fetch_loop mb msw r i ts w)) = pre @ rest"
  by (rule pres_fetch_loop [where P = "\<lambda>w'. \<exists>rest. calls w' = pre @ rest"])
     (auto simp: Event_calls)

section \<open>Shutdown during the start delay\<close>

lemma run_delay_done:
  assumes "0 < maxStartDelay (module msw)"
    and "done_closed w \<or> closes (delay_sel p)" and "\<not> other_ready (delay_sel p)"
  shows "run mb msw p w = (True, msw, w\<lparr>done_closed := True\<rparr>)"
proof -
  have "select_done (delay_sel p) w = TookDone"
    using assms(2,3) by (simp add: select_done_def observe_def)
  moreover have "observe (delay_sel p) w = w\<lparr>done_closed := True\<rparr>"
    using assms(2) by (auto simp: observe_def)
  ultimately show ?thesis using assms(1) by (simp add: run_def Let_def)
qed

text \<open>
  Claim C6. Let a worker have a start delay configured (\<open>maxStartDelay > 0\<close>); the delay
  drawn lies in \<open>[0, maxStartDelay)\<close>. If \<open>done\<close> is closed before the delay has elapsed (when
  the select of \<open>run\<close> is resolved \<open>done\<close> is closed and the timer has not fired), then \<open>run\<close>
  returns at once: it does not reach the type switch, the metricSetWrapper and the state
  are as they were (but for \<open>done\<close> being closed), and neither \<open>Fetch\<close> nor \<open>Run\<close> is among
  the calls of the worker.
\<close>

theorem shutdown_during_start_delay:
  assumes "0 < maxStartDelay (module msw)"
    and "done_closed w \<or> closes (delay_sel p)" and "\<not> other_ready (delay_sel p)"
  shows "run mb msw p w = (True, msw, w\<lparr>done_closed := True\<rparr>) \<and>
     calls (snd (snd (run mb msw p w))) = calls w \<and>
     out (snd (snd (run mb msw p w))) = out w \<and>
     heap (snd (snd (run mb msw p w))) = heap w \<and>
     calls (snd (snd (worker mb msw p w))) =
       calls w @ [RegistryAdd (metricset_ID (MetricSet msw)),
                  UpdateStatus Starting (starting_message msw)] @
       (if closer (MetricSet msw) then [CallClose] else []) @
       [RegistryRemove (metricset_ID (MetricSet msw))] \<and>
     0 \<le> Int63n (random_source p) (maxStartDelay (module msw)) \<and>
     Int63n (random_source p) (maxStartDelay (module msw)) < maxStartDelay (module msw)"
proof -
  note r = run_delay_done [OF assms, of mb]
  let ?w2 = "log_call (UpdateStatus Starting (starting_message msw))
      (log_call (RegistryAdd (metricset_ID (MetricSet msw))) w)"
  have "run mb msw p ?w2 = (True, msw, ?w2\<lparr>done_closed := True\<rparr>)"
    using assms by (intro run_delay_done) simp_all
  then have "calls (snd (snd (worker mb msw p w))) =
       calls w @ [RegistryAdd (metricset_ID (MetricSet msw)),
                  UpdateStatus Starting (starting_message msw)] @
       (if closer (MetricSet msw) then [CallClose] else []) @
       [RegistryRemove (metricset_ID (MetricSet msw))]"
    by (simp add: worker_def Let_def calls_close_metricset)
  with r assms(1) show ?thesis by (simp add: Int63n_def)
qed

theorem shutdown_during_start_delay_witness:
  "0 < maxStartDelay (module example_delayed) \<and> closes (delay_sel example_plan) \<and>
   \<not> other_ready (delay_sel example_plan) \<and>
   run example_mb example_delayed example_plan init_world =
     (True, example_delayed, init_world\<lparr>done_closed := True\<rparr>) \<and>
   calls (snd (snd (worker example_mb example_delayed example_plan init_world))) =
     [RegistryAdd ''system-cpu'', UpdateStatus Starting ''system/cpu is starting'',
      RegistryRemove ''system-cpu'']"
proof -
  have h: "0 < maxStartDelay (module example_delayed)"
    "done_closed (init_world :: unit mb_event world) \<or> closes (delay_sel example_plan)"
    "\<not> other_ready (delay_sel example_plan)"
    by (simp_all add: example_defs example_delayed_def)
  from shutdown_during_start_delay [OF h, of example_mb] h
  show ?thesis
    by (simp add: example_defs example_delayed_def init_world_def starting_message_def)
qed

section \<open>The first fetch of a polling worker\<close>

lemma run_polling:
  assumes "run_method (MetricSet msw) = None" and "fetch_method (MetricSet msw) = Some fm"
    and "maxStartDelay (module msw) \<le> 0"
  shows "run mb msw p w =
     (case startPeriodicFetching mb msw \<lparr>start = 0\<rparr> (first_fetch p) (ticks p) w of
        (e, msw', w') \<Rightarrow> (e \<noteq> Hangs, msw', w'))"
  using assms by (simp add: run_def dispatch_def Let_def)

text \<open>
  Claim C10. Let a worker poll (its MetricSet has a \<open>Fetch\<close> and no \<open>Run\<close> method) with no
  start delay configured. Whatever the state of \<open>done\<close> when \<open>run\<close> is entered, the first
  call the worker makes is the first \<open>Fetch\<close>. When \<open>done\<close> is already closed at entry and
  the ticker has not fired by the first select of the loop, that fetch is the only one;
  and unless it never returns, \<open>run\<close> then returns: the loop finds \<open>done\<close> closed at its
  first select, after the fetch.
\<close>

theorem polling_fetches_before_shutdown_check:
  assumes polling: "run_method (MetricSet msw) = None" "fetch_method (MetricSet msw) = Some fm"
    and nojitter: "maxStartDelay (module msw) \<le> 0"
  shows "(\<exists>rest. calls (snd (snd (run mb msw p w))) = calls w @ CallFetch 0 # rest) \<and>
     (done_closed w \<longrightarrow> (\<forall>s fe ts. ticks p = (s, fe) # ts \<longrightarrow> \<not> other_ready s) \<longrightarrow>
        filter is_fetch (calls (snd (snd (run mb msw p w)))) =
          filter is_fetch (calls w) @ [CallFetch 0]) \<and>
     (done_closed w \<longrightarrow> (\<exists>s fe ts. ticks p = (s, fe) # ts \<and> \<not> other_ready s) \<longrightarrow>
        fst (fetch mb (msw\<lparr>periodic := True\<rparr>) \<lparr>start = 0\<rparr> 0 (first_fetch p) w) \<noteq> Hangs \<longrightarrow>
        fst (run mb msw p w))"
proof -
  let ?m = "msw\<lparr>periodic := True\<rparr>"
  let ?f = "fetch mb ?m \<lparr>start = 0\<rparr> 0 (first_fetch p) w"
  obtain e r' w' where f: "?f = (e, r', w')" by (cases ?f)
  have fm: "fetch_method (MetricSet ?m) = Some fm" using polling by simp
  from fetch_calls [OF fm, of mb "\<lparr>start = 0\<rparr>" 0 "first_fetch p" w] f
  obtain st where st: "calls w' = calls w @ CallFetch 0 # st" "filter is_fetch st = []"
    by auto
  note run = run_polling [OF polling nojitter, of mb p w]
  have sp: "startPeriodicFetching mb msw \<lparr>start = 0\<rparr> (first_fetch p) ts w =
      (case e of
         Returns u \<Rightarrow>
           (if Config_Period (module msw) \<le> 0 then (Panics, ?m, w')
            else (fst (fetch_loop mb ?m r' 1 ts w'), ?m, snd (fetch_loop mb ?m r' 1 ts w')))
       | Panics \<Rightarrow> (Panics, ?m, w')
       | Hangs \<Rightarrow> (Hangs, ?m, w'))" for ts
    using f by (simp add: startPeriodicFetching_def Let_def split_beta split: ending.splits)
  have pre: "\<exists>rest. calls w' = (calls w @ [CallFetch 0]) @ rest" using st by simp
  from calls_grow_fetch_loop [OF pre, of mb ?m r' 1 "ticks p"]
  have loop: "\<exists>rest. calls (snd (fetch_loop mb ?m r' 1 (ticks p) w')) =
      calls w @ CallFetch 0 # rest" by simp
  have a: "\<exists>rest. calls (snd (snd (run mb msw p w))) = calls w @ CallFetch 0 # rest"
    using loop st by (simp add: run sp split: ending.splits)
  have dc: "done_closed w'" if "done_closed w"
    using done_closed_fetch [OF that, of mb ?m "\<lparr>start = 0\<rparr>" 0 "first_fetch p"] f by simp
  have b: "filter is_fetch (calls (snd (snd (run mb msw p w)))) =
          filter is_fetch (calls w) @ [CallFetch 0]"
    if d: "done_closed w" and t: "\<forall>s fe ts. ticks p = (s, fe) # ts \<longrightarrow> \<not> other_ready s"
  proof (cases "ticks p")
    case Nil
    with st show ?thesis by (simp add: run sp split: ending.splits)
  next
    case (Cons x ts)
    obtain s fe where x: "x = (s, fe)" by (cases x)
    with t Cons have "\<not> other_ready s" by simp
    with dc [OF d] have "select_done s w' = TookDone" by (rule select_done_closed)
    with st Cons x show ?thesis by (simp add: run sp split: ending.splits)
  qed
  have c: "fst (run mb msw p w)"
    if d: "done_closed w" and t: "\<exists>s fe ts. ticks p = (s, fe) # ts \<and> \<not> other_ready s"
      and h: "fst ?f \<noteq> Hangs"
  proof -
    from t obtain s fe ts where ts: "ticks p = (s, fe) # ts" "\<not> other_ready s" by auto
    with dc [OF d] have "select_done s w' = TookDone" by (intro select_done_closed)
    with ts h f show ?thesis by (simp add: run sp split: ending.splits)
  qed
  from a b c show ?thesis by blast
qed


theorem polling_fetches_before_shutdown_check_witness:
  "run_method (MetricSet example_polling) = None \<and>
   maxStartDelay (module example_polling) \<le> 0 \<and>
   done_closed (init_world\<lparr>done_closed := True\<rparr> :: unit mb_event world) \<and>
   filter is_fetch (calls (snd (snd (run example_mb example_polling example_plan
      (init_world\<lparr>done_closed := True\<rparr>))))) = [CallFetch 0] \<and>
   fst (run example_mb example_polling example_plan (init_world\<lparr>done_closed := True\<rparr>))"
proof -
  let ?w = "init_world\<lparr>done_closed := True\<rparr> :: unit mb_event world"
  have h: "run_method (MetricSet example_polling) = None"
    "fetch_method (MetricSet example_polling) =
       Some (ReportingMetricSetV2 (\<lambda>i. ([(V2_Event (error_event None), example_env sending)],
        Returns ())))"
    "maxStartDelay (module example_polling) \<le> 0"
    by (simp_all add: example_defs)
  have t: "ticks example_plan = [(shutdown, example_fetch_env)]" "\<not> other_ready shutdown"
    by (simp_all add: example_defs)
  have f: "fst (fetch example_mb (example_polling\<lparr>periodic := True\<rparr>) \<lparr>start = 0\<rparr> 0
      (first_fetch example_plan) ?w) \<noteq> Hangs"
    by (simp add: example_defs worker_defs)
  have c: "calls ?w = []" "done_closed ?w" by (simp_all add: init_world_def)
  from polling_fetches_before_shutdown_check [OF h, of example_mb example_plan ?w] h t f c
  show ?thesis by simp
qed


section \<open>Status notifications\<close>





section \<open>The period of an event\<close>

lemma Period_prepare:
  "Period (prepare msw r event env) =
     (if periodic msw then Config_Period (module msw) else Period event)"
  by (simp add: prepare_def Let_def)

lemma sent_refl: "sent mb msw Q w w"
  unfolding sent_def by (rule exI [of _ "[]"]) simp

lemma sent_same_out: "sent mb msw Q w0 w \<Longrightarrow> out w' = out w \<Longrightarrow> sent mb msw Q w0 w'"
  by (simp add: sent_def)

lemma sent_names:
  "module m = module msw \<Longrightarrow> MetricSet m = MetricSet msw \<Longrightarrow>
   sent mb m Q w0 w = sent mb msw Q w0 w"
  by (simp add: sent_def)

lemma sent_Event:
  assumes "sent mb msw Q w0 w" and "Q (prepare msw r event env)"
  shows "sent mb msw Q w0 (snd (Event mb msw r event env w))"
proof (cases "fst (Event mb msw r event env w) = Some True")
  case True
  from assms(1) obtain es where es:
    "out w = out w0 @ map (\<lambda>e. BeatEvent mb e (module_Name (module msw))
        (metricset_Name (MetricSet msw)) (eventModifiers (module msw))) es"
    "\<forall>e \<in> set es. Q e"
    by (auto simp: sent_def)
  show ?thesis
    unfolding sent_def
  proof (intro exI [of _ "es @ [prepare msw r event env]"] conjI)
    show "out (snd (Event mb msw r event env w)) = out w0 @
        map (\<lambda>e. BeatEvent mb e (module_Name (module msw))
          (metricset_Name (MetricSet msw)) (eventModifiers (module msw)))
          (es @ [prepare msw r event env])"
      using True es(1) by (simp add: Event_out)
    show "\<forall>e \<in> set (es @ [prepare msw r event env]). Q e"
      using es(2) assms(2) by auto
  qed
next
  case False
  then show ?thesis by (intro sent_same_out [OF assms(1)]) (simp add: Event_out)
qed

lemma sent_log_call: "sent mb msw Q w0 w \<Longrightarrow> sent mb msw Q w0 (log_call c w)"
  by (erule sent_same_out) simp

lemma sent_observe: "sent mb msw Q w0 w \<Longrightarrow> sent mb msw Q w0 (observe s w)"
  by (erule sent_same_out) simp

text \<open>A polling worker: every event is prepared with the flag set.\<close>

lemma sent_periodic:
  assumes "sent mb msw (\<lambda>e. Period e = Config_Period (module msw)) w0 w"
  shows "sent mb msw (\<lambda>e. Period e = Config_Period (module msw)) w0
     (snd (Event mb (msw\<lparr>periodic := True\<rparr>) r event env w))"
proof -
  let ?m = "msw\<lparr>periodic := True\<rparr>"
  let ?Q = "\<lambda>e. Period e = Config_Period (module msw)"
  have n: "sent mb ?m ?Q w0 w' = sent mb msw ?Q w0 w'" for w'
    by (rule sent_names) simp_all
  have "sent mb ?m ?Q w0 (snd (Event mb ?m r event env w))"
    using assms by (intro sent_Event) (simp_all add: n Period_prepare)
  then show ?thesis by (simp add: n)
qed

lemma sent_dispatch_polling:
  assumes "run_method (MetricSet msw) = None" and "fetch_method (MetricSet msw) \<noteq> None"
    and "sent mb msw (\<lambda>e. Period e = Config_Period (module msw)) w0 w"
  shows "sent mb msw (\<lambda>e. Period e = Config_Period (module msw)) w0
     (snd (snd (dispatch mb msw p w)))"
proof -
  have "sent mb msw (\<lambda>e. Period e = Config_Period (module msw)) w0
      (snd (snd (startPeriodicFetching mb msw \<lparr>start = 0\<rparr> (first_fetch p) (ticks p) w)))"
    by (rule pres_startPeriodicFetching
          [where P = "sent mb msw (\<lambda>e. Period e = Config_Period (module msw)) w0",
           OF sent_periodic sent_log_call sent_observe assms(3)])
  with assms(1,2) show ?thesis by (auto simp: dispatch_def Let_def)
qed

text \<open>A push worker: every event is prepared from a call of the MetricSet, as the
  metricSetWrapper stands.\<close>

lemma reporterV2_handed:
  "reporterV2 mb msw r c env w =
     Event mb msw r (fst (handed_V2 (c, env))) (snd (handed_V2 (c, env))) w"
  by (cases c) (simp_all add: Error_V2_def)

lemma reporterV1_handed:
  "reporterV1 mb msw r c env w =
     (case handed_V1 mb (module_Name (module msw)) (c, env) of
        None \<Rightarrow> (Some True, w)
      | Some x \<Rightarrow> Event mb msw r (fst x) (snd x) w)"
  by (cases c) (simp_all add: ErrorWith_def)

lemma sent_report_all_V2:
  assumes "handed_V2 ` set cs \<subseteq> H"
    and "sent mb msw (\<lambda>e. \<exists>(event, env) \<in> H. e = prepare msw r event env \<and> Q e event) w0 w"
    and "\<And>event env. Q (prepare msw r event env) event"
  shows "sent mb msw (\<lambda>e. \<exists>(event, env) \<in> H. e = prepare msw r event env \<and> Q e event) w0
     (snd (report_all (reporterV2 mb msw r) cs w))"
  using assms(1,2)
proof (induction cs arbitrary: w)
  case Nil
  then show ?case by simp
next
  case (Cons x cs)
  obtain c env where x: "x = (c, env)" by (cases x)
  let ?h = "handed_V2 (c, env)"
  have mem: "?h \<in> H" using Cons.prems(1) x by simp
  have q: "\<exists>(event, env') \<in> H. prepare msw r (fst ?h) (snd ?h) = prepare msw r event env' \<and>
      Q (prepare msw r (fst ?h) (snd ?h)) event"
    using mem assms(3) [of "fst ?h" "snd ?h"] by (intro bexI [of _ ?h]) (simp_all add: split_beta)
  have s: "sent mb msw (\<lambda>e. \<exists>(event, env) \<in> H. e = prepare msw r event env \<and> Q e event) w0
      (snd (reporterV2 mb msw r c env w))"
    unfolding reporterV2_handed by (rule sent_Event [OF Cons.prems(2) q])
  obtain res w' where rw: "reporterV2 mb msw r c env w = (res, w')"
    by (cases "reporterV2 mb msw r c env w")
  from Cons.prems(1) have sub: "handed_V2 ` set cs \<subseteq> H" by simp
  from s rw Cons.IH [OF sub, of w'] x show ?case by (cases res) simp_all
qed

lemma sent_report_all_V1:
  assumes "{x. \<exists>c \<in> set cs. handed_V1 mb (module_Name (module msw)) c = Some x} \<subseteq> H"
    and "sent mb msw (\<lambda>e. \<exists>(event, env) \<in> H. e = prepare msw r event env \<and> Q e event) w0 w"
    and "\<And>event env. Q (prepare msw r event env) event"
  shows "sent mb msw (\<lambda>e. \<exists>(event, env) \<in> H. e = prepare msw r event env \<and> Q e event) w0
     (snd (report_all (reporterV1 mb msw r) cs w))"
  using assms(1,2)
proof (induction cs arbitrary: w)
  case Nil
  then show ?case by simp
next
  case (Cons x cs)
  obtain c env where x: "x = (c, env)" by (cases x)
  have s: "sent mb msw (\<lambda>e. \<exists>(event, env) \<in> H. e = prepare msw r event env \<and> Q e event) w0
      (snd (reporterV1 mb msw r c env w))"
  proof (cases "handed_V1 mb (module_Name (module msw)) (c, env)")
    case None
    with Cons.prems(2) show ?thesis by (simp add: reporterV1_handed)
  next
    case (Some h)
    then have mem: "h \<in> H" using Cons.prems(1) x by auto
    have q: "\<exists>(event, env') \<in> H. prepare msw r (fst h) (snd h) = prepare msw r event env' \<and>
        Q (prepare msw r (fst h) (snd h)) event"
      using mem assms(3) [of "fst h" "snd h"] by (intro bexI [of _ h]) (simp_all add: split_beta)
    show ?thesis
      unfolding reporterV1_handed Some option.case
      by (rule sent_Event [OF Cons.prems(2) q])
  qed
  obtain res w' where rw: "reporterV1 mb msw r c env w = (res, w')"
    by (cases "reporterV1 mb msw r c env w")
  from Cons.prems(1)
  have sub: "{x. \<exists>c \<in> set cs. handed_V1 mb (module_Name (module msw)) c = Some x} \<subseteq> H"
    by auto
  from s rw Cons.IH [OF sub, of w'] x show ?case by (cases res) simp_all
qed

lemma snd_invoke: "snd (invoke rep beh w) = snd (report_all rep (fst beh) w)"
  by (simp add: invoke_def split_beta split: bool.splits)

lemma sent_dispatch_push:
  assumes rm: "run_method (MetricSet msw) = Some rm"
    and s: "sent mb msw (\<lambda>e. \<exists>(event, env) \<in> handed mb (module_Name (module msw)) rm.
        e = prepare msw \<lparr>start = 0\<rparr> event env \<and> Q e event) u w"
    and q: "\<And>event env. Q (prepare msw \<lparr>start = 0\<rparr> event env) event"
  shows "fst (snd (dispatch mb msw p w)) = msw \<and>
     sent mb msw (\<lambda>e. \<exists>(event, env) \<in> handed mb (module_Name (module msw)) rm.
        e = prepare msw \<lparr>start = 0\<rparr> event env \<and> Q e event) u
       (snd (snd (dispatch mb msw p w)))"
proof -
  let ?H = "handed mb (module_Name (module msw)) rm"
  have l: "sent mb msw (\<lambda>e. \<exists>(event, env) \<in> ?H.
      e = prepare msw \<lparr>start = 0\<rparr> event env \<and> Q e event) u (log_call CallRun w)"
    using s by (rule sent_log_call)
  show ?thesis
  proof (cases rm)
    case (PushMetricSet ms)
    then have "{x. \<exists>c \<in> set (fst ms). handed_V1 mb (module_Name (module msw)) c = Some x} \<subseteq> ?H"
      by simp
    from sent_report_all_V1 [where Q = Q, OF this l q] rm PushMetricSet
    show ?thesis by (simp add: dispatch_def Let_def split_beta snd_invoke)
  next
    case (PushMetricSetV2 ms)
    then have "handed_V2 ` set (fst ms) \<subseteq> ?H" by simp
    from sent_report_all_V2 [where Q = Q, OF this l q] rm PushMetricSetV2
    show ?thesis by (simp add: dispatch_def Let_def split_beta snd_invoke)
  next
    case (PushMetricSetV2WithContext ms)
    then have "handed_V2 ` set (fst ms) \<subseteq> ?H" by simp
    from sent_report_all_V2 [where Q = Q, OF this l q] rm PushMetricSetV2WithContext
    show ?thesis by (simp add: dispatch_def Let_def split_beta snd_invoke)
  qed
qed

lemma run_cases:
  "run mb msw p w = (True, msw, observe (delay_sel p) w) \<or>
   run mb msw p w = (False, msw, observe (delay_sel p) w) \<or>
   (\<exists>w1. (w1 = w \<or> w1 = observe (delay_sel p) w) \<and>
      run mb msw p w = (fst (dispatch mb msw p w1) \<noteq> Hangs, snd (dispatch mb msw p w1)))"
  by (auto simp: run_def Let_def split_beta split: selected.splits)

lemma wrap_metricsets_not_periodic:
  "m \<in> set (fst (wrap_metricsets wrapper metricSets w)) \<Longrightarrow> \<not> periodic m"
  by (induction metricSets arbitrary: w) (auto simp: split_beta)

lemma stamps_iff_periodic:
  "(\<forall>event. Period (prepare msw r event env) = Config_Period (module msw)) = periodic msw"
proof
  assume a: "\<forall>event. Period (prepare msw r event env) = Config_Period (module msw)"
  show "periodic msw"
  proof (rule ccontr)
    assume "\<not> periodic msw"
    with a [rule_format, of "(error_event None)\<lparr>Period := Config_Period (module msw) + 1\<rparr>"]
    show False by (simp add: Period_prepare)
  qed
next
  assume "periodic msw"
  then show "\<forall>event. Period (prepare msw r event env) = Config_Period (module msw)"
    by (simp add: Period_prepare)
qed

text \<open>
  Claim C5. \<open>reporterV2.Event\<close> stamps the configured period of the module on the event it
  sends exactly when the \<open>periodic\<close> flag of the worker is set: with the flag set the event
  carries the configured period whatever it was passed with, and with the flag unset its
  period is left as it was passed. A polling worker sets the flag on entering the
  periodic-fetch loop, before the first fetch: every event it sends carries the
  configured period. A worker that runs a push protocol never does: \<open>run\<close> leaves the
  metricSetWrapper as it was, with the flag unset as \<open>createWrapper\<close> made it, and every
  event it sends is one that its MetricSet passed to the reporter, prepared with the flag
  unset, its period as the MetricSet passed it.
\<close>

theorem period_stamping:
  "Period (prepare msw r event env) =
     (if periodic msw then Config_Period (module msw) else Period event) \<and>
   (\<forall>event. Period (prepare msw r event env) = Config_Period (module msw)) = periodic msw \<and>
   (fst (Event mb msw r event env w) = Some True \<longrightarrow>
      out (snd (Event mb msw r event env w)) =
        out w @ [BeatEvent mb (prepare msw r event env) (module_Name (module msw))
                   (metricset_Name (MetricSet msw)) (eventModifiers (module msw))]) \<and>
   (run_method (MetricSet msw) = None \<and> fetch_method (MetricSet msw) \<noteq> None \<longrightarrow>
      sent mb msw (\<lambda>e. Period e = Config_Period (module msw)) w (snd (snd (run mb msw p w)))) \<and>
   (run_method (MetricSet msw) = Some rm \<and> \<not> periodic msw \<longrightarrow>
      fst (snd (run mb msw p w)) = msw \<and>
      sent mb msw
        (\<lambda>e. \<exists>(passed, env') \<in> handed mb (module_Name (module msw)) rm.
               e = prepare msw \<lparr>start = 0\<rparr> passed env' \<and> Period e = Period passed)
        w (snd (snd (run mb msw p w)))) \<and>
   (\<forall>m \<in> set (fst (createWrapper module_given metricSets options w)). \<not> periodic m)"
proof -
  let ?Qp = "\<lambda>e. Period e = Config_Period (module msw)"
  let ?Qh = "\<lambda>e. \<exists>(passed, env') \<in> handed mb (module_Name (module msw)) rm.
      e = prepare msw \<lparr>start = 0\<rparr> passed env' \<and> Period e = Period passed"
  have o: "sent mb msw Q w (observe (delay_sel p) w)" for Q
    using sent_refl by (rule sent_observe)
  have a: "sent mb msw ?Qp w (snd (snd (run mb msw p w)))"
    if "run_method (MetricSet msw) = None" "fetch_method (MetricSet msw) \<noteq> None"
    using run_cases [of mb msw p w] o [of ?Qp]
      sent_dispatch_polling [OF that sent_refl, where mb = mb and p = p]
      sent_dispatch_polling [OF that o, where p = p]
    by auto
  have b: "fst (snd (run mb msw p w)) = msw \<and> sent mb msw ?Qh w (snd (snd (run mb msw p w)))"
    if rm: "run_method (MetricSet msw) = Some rm" and np: "\<not> periodic msw"
  proof -
    have q: "Period (prepare msw \<lparr>start = 0\<rparr> passed env') = Period passed" for passed env'
      using np by (simp add: Period_prepare)
    note d1 = sent_dispatch_push [where Q = "\<lambda>e passed. Period e = Period passed"
        and mb = mb and u = w and w = w and p = p, OF rm sent_refl q]
    note d2 = sent_dispatch_push [where Q = "\<lambda>e passed. Period e = Period passed"
        and mb = mb and u = w and w = "observe (delay_sel p) w" and p = p, OF rm o q]
    show ?thesis
      using run_cases [of mb msw p w] o [of ?Qh] d1 d2
      by auto
  qed
  have c: "\<forall>m \<in> set (fst (createWrapper module_given metricSets options w)). \<not> periodic m"
    using wrap_metricsets_not_periodic by (auto simp: createWrapper_def)
  from a b c show ?thesis
    by (simp add: Period_prepare Event_out stamps_iff_periodic [unfolded Period_prepare])
qed

theorem period_stamping_witness:
  "run_method (MetricSet example_polling) = None \<and>
   fetch_method (MetricSet example_polling) \<noteq> None \<and>
   sent example_mb example_polling (\<lambda>e. Period e = 10000000000) example_world
     (snd (snd (run example_mb example_polling example_plan example_world))) \<and>
   map Period (out (snd (snd (run example_mb example_polling example_plan example_world)))) =
     [10000000000] \<and>
   run_method (MetricSet example_push) \<noteq> None \<and> \<not> periodic example_push \<and>
   fst (snd (run example_mb example_push example_plan example_world)) = example_push \<and>
   map Period (out (snd (snd (run example_mb example_push example_plan example_world)))) =
     [5000000000] \<and>
   Config_Period (module example_push) = 10000000000"
proof -
  let ?rm = "PushMetricSetV2 ([(V2_Event ((error_event None)\<lparr>Period := 5000000000\<rparr>),
        example_env sending)], Returns ()) :: unit run_method"
  have h: "run_method (MetricSet example_polling) = None"
    "fetch_method (MetricSet example_polling) \<noteq> None"
    "run_method (MetricSet example_push) = Some ?rm" "\<not> periodic example_push"
    "Config_Period (module example_polling) = 10000000000"
    "Config_Period (module example_push) = 10000000000"
    by (simp_all add: example_defs example_push_def)
  from period_stamping [where msw = example_polling and mb = example_mb and p = example_plan
      and w = example_world and r = "\<lparr>start = 0\<rparr>" and event = "error_event None"
      and env = "example_env sending" and rm = ?rm and module_given = example_module
      and metricSets = "[]" and options = "[]"] h
  have s1: "sent example_mb example_polling (\<lambda>e. Period e = 10000000000) example_world
     (snd (snd (run example_mb example_polling example_plan example_world)))" by simp
  from period_stamping [where msw = example_push and mb = example_mb and p = example_plan
      and w = example_world and r = "\<lparr>start = 0\<rparr>" and event = "error_event None"
      and env = "example_env sending" and rm = ?rm and module_given = example_module
      and metricSets = "[]" and options = "[]"] h
  have s2: "fst (snd (run example_mb example_push example_plan example_world)) = example_push"
    by simp
  have o1: "map Period (out (snd (snd (run example_mb example_polling example_plan
      example_world)))) = [10000000000]"
    by (simp add: example_defs worker_defs)
  have o2: "map Period (out (snd (snd (run example_mb example_push example_plan
      example_world)))) = [5000000000]"
    by (simp add: example_defs example_push_def worker_defs)
  from h s1 s2 o1 o2 show ?thesis by simp
qed

section \<open>Counters\<close>

lemma counters_ok_worker: "counters_ok w \<Longrightarrow> counters_ok (snd (snd (worker mb msw p w)))"
  by (rule pres_worker [where P = counters_ok])
     (simp_all add: counters_ok_Event counters_ok_releaseStats, simp_all add: counters_ok_def)

text \<open>
  Claim C9. Every call of \<open>reporterV2.Event\<close> has added 1 to \<open>success\<close> or to \<open>failures\<close>
  before the write is attempted: the sum of the two has grown by 1 whether the call
  returns \<open>true\<close>, returns \<open>false\<close> because the write was rejected at shutdown, or blocks in
  the write; in the last two cases \<open>events\<close> is unchanged. So for every stats entry
  \<open>success + failures\<close> is at least \<open>events\<close>: this holds after any sequence of calls of
  \<open>Event\<close> from the start of the process, and every function of the file that changes the
  state keeps it (\<open>Event\<close>, a whole worker, \<open>getMetricSetStats\<close> and \<open>releaseStats\<close>).
\<close>

theorem counters_before_write:
  "success (heap (snd (Event mb msw r event env w)) (msw_stats msw)) +
     failures (heap (snd (Event mb msw r event env w)) (msw_stats msw)) =
   success (heap w (msw_stats msw)) + failures (heap w (msw_stats msw)) + 1 \<and>
   (fst (Event mb msw r event env w) \<noteq> Some True \<longrightarrow>
      events (heap (snd (Event mb msw r event env w)) (msw_stats msw)) =
        events (heap w (msw_stats msw)) \<and>
      out (snd (Event mb msw r event env w)) = out w) \<and>
   (select_done (sel env) w = TookDone \<longrightarrow> fst (Event mb msw r event env w) = Some False) \<and>
   counters_ok (reports mb cs init_world) \<and>
   (counters_ok w \<longrightarrow>
      counters_ok (snd (Event mb msw r event env w)) \<and>
      counters_ok (reports mb cs w) \<and>
      counters_ok (snd (snd (worker mb msw p w))) \<and>
      counters_ok (snd (getMetricSetStats m n w)) \<and>
      counters_ok (releaseStats s w))"
proof -
  have i: "counters_ok (reports mb cs init_world)"
    by (rule counters_ok_reports [OF counters_ok_init])
  from i counters_ok_reports [of w mb cs]
    counters_ok_Event [of w mb msw r event env] counters_ok_worker [of w mb msw p]
    counters_ok_getMetricSetStats [of w m n] counters_ok_releaseStats [of w s]
  show ?thesis
    by (simp add: Event_heap Event_out Event_result)
qed

theorem counters_before_write_witness:
  "counters_ok example_world \<and>
   counters_ok (snd (snd (worker example_mb example_polling example_plan example_world))) \<and>
   select_done (sel (example_env shutdown)) example_world = TookDone \<and>
   fst (Event example_mb example_polling \<lparr>start = 0\<rparr> (error_event (Some ''boom''))
     (example_env shutdown) example_world) = Some False \<and>
   success (heap (snd (Event example_mb example_polling \<lparr>start = 0\<rparr> (error_event (Some ''boom''))
     (example_env shutdown) example_world)) 0) +
   failures (heap (snd (Event example_mb example_polling \<lparr>start = 0\<rparr>
     (error_event (Some ''boom'')) (example_env shutdown) example_world)) 0) = 1"
proof -
  have ok: "counters_ok example_world"
    by (simp add: counters_ok_def example_defs worker_defs)
  have sd: "select_done (sel (example_env shutdown)) example_world = TookDone"
    by (simp add: example_defs worker_defs)
  have z: "msw_stats example_polling = 0" "success (heap example_world 0) = 0"
    "failures (heap example_world 0) = 0"
    by (simp_all add: example_defs worker_defs)
  from counters_before_write [where mb = example_mb and msw = example_polling
      and r = "\<lparr>start = 0\<rparr>" and event = "error_event (Some ''boom'')"
      and env = "example_env shutdown" and w = example_world and p = example_plan] ok sd z
  show ?thesis by simp
qed

end
